theory Spec2Isabelle
  imports Main
begin

text \<open>
  The cross-chain bridge of the Spredd frontend: the Squid Router service
  (\<^verbatim>\<open>retryWithBackoff\<close>, \<^verbatim>\<open>getRoute\<close>, \<^verbatim>\<open>checkAllowance\<close>, \<^verbatim>\<open>approveToken\<close>,
  \<^verbatim>\<open>executeBridge\<close>, \<^verbatim>\<open>getTransactionStatus\<close>, \<^verbatim>\<open>monitorTransaction\<close>), its types and
  configuration, and the function \<^verbatim>\<open>bridge\<close> of the React hook \<^verbatim>\<open>useSquidBridge\<close>.
  Asynchronous functions are functions on the state of the world that return an outcome
  (a thrown value or a result) and the events they caused; loops are total recursive
  functions.
\<close>

section \<open>Thrown values\<close>

text \<open>
  What a JavaScript \<^verbatim>\<open>throw\<close> carries. \<^verbatim>\<open>retryWithBackoff\<close> reads the
  properties \<^verbatim>\<open>status\<close> and \<^verbatim>\<open>code\<close> of a thrown value, the hook reads
  \<^verbatim>\<open>code\<close> and \<^verbatim>\<open>message\<close>; a thrown value is therefore either
  \<^verbatim>\<open>undefined\<close> (the initial \<^verbatim>\<open>lastError\<close>) or an object with these three
  optional properties. \<^verbatim>\<open>new Error(m)\<close> is \<open>JsError None None m\<close>.
\<close>

datatype error_code = NumCode int | StrCode string

datatype js_error = Undefined | JsError "int option" "error_code option" string

fun err_status :: "js_error \<Rightarrow> int option" where
  "err_status Undefined = None"
| "err_status (JsError s c m) = s"

fun err_code :: "js_error \<Rightarrow> error_code option" where
  "err_code Undefined = None"
| "err_code (JsError s c m) = c"

fun err_message :: "js_error \<Rightarrow> string" where
  "err_message Undefined = []"
| "err_message (JsError s c m) = m"

definition new_Error :: "string \<Rightarrow> js_error" where
  "new_Error m = JsError None None m"

section \<open>Data model (types.ts)\<close>

record RouteParams =
  fromChain :: string
  toChain :: string
  fromToken :: string
  toToken :: string
  fromAmount :: string
  fromAddress :: string
  toAddress :: string
  slippage :: int
  collectFees :: "(string \<times> int) option"

text \<open>The field \<^verbatim>\<open>value\<close> is written \<open>tx_value\<close>.\<close>

record TransactionRequest =
  target :: string
  data :: string
  tx_value :: string
  gasLimit :: string
  gasPrice :: "string option"
  maxFeePerGas :: "string option"
  maxPriorityFeePerGas :: "string option"

text \<open>
  \<^verbatim>\<open>Route\<close>: the \<^verbatim>\<open>estimate\<close> is carried along and never read by the service or
  the hook, so it is left out; \<^verbatim>\<open>quoteId\<close> is not declared in types.ts but read by
  \<^verbatim>\<open>getRoute\<close>.
\<close>

record Route =
  transactionRequest :: TransactionRequest
  params :: RouteParams
  quoteId :: "string option"

record RouteResponse =
  rr_route :: Route
  requestId :: string

text \<open>
  \<^verbatim>\<open>TransactionStatus\<close>: the fields the code reads or builds
  (\<^verbatim>\<open>id\<close>, \<^verbatim>\<open>status\<close>, \<^verbatim>\<open>squidTransactionStatus\<close>, \<^verbatim>\<open>error\<close>).
\<close>

record TransactionStatus =
  ts_id :: string
  ts_status :: string
  squidTransactionStatus :: string
  ts_error :: "string option"

datatype bridge_status = Idle | Approving | Bridging | Monitoring | Success | Error

fun status_name :: "bridge_status \<Rightarrow> string" where
  "status_name Idle = ''idle''"
| "status_name Approving = ''approving''"
| "status_name Bridging = ''bridging''"
| "status_name Monitoring = ''monitoring''"
| "status_name Success = ''success''"
| "status_name Error = ''error''"

record BridgeState =
  isLoading :: bool
  error :: "string option"
  status :: bridge_status
  txHash :: "string option"
  route :: "Route option"

text \<open>The object handed to \<^verbatim>\<open>signer.sendTransaction\<close>.\<close>

record SentTransaction =
  sent_to :: string
  sent_data :: string
  sent_value :: string
  sent_gasLimit :: string
  sent_gasPrice :: "string option"
  sent_maxFeePerGas :: "string option"
  sent_maxPriorityFeePerGas :: "string option"

section \<open>The outside world\<close>

text \<open>
  What \<^verbatim>\<open>fetch\<close> gives: it rejects, or it resolves to a response with a status code
  and a body that \<^verbatim>\<open>res.json()\<close> either parses or rejects. A parsed body is an object
  with the fields the code reads, each present or not (a body of the quote endpoint has
  \<^verbatim>\<open>error\<close> and \<^verbatim>\<open>route\<close>, a body of the status endpoint is a
  \<^verbatim>\<open>TransactionStatus\<close>); a field that is missing, \<^verbatim>\<open>null\<close> or empty is \<open>None\<close>
  or the empty string. JSON values that are not objects are left out.
\<close>

datatype 'a body = NotJson | Json 'a

datatype 'a fetched = FetchThrows js_error | Response nat "'a body"

record route_json =
  json_error :: "string option"
  json_route :: "Route option"

datatype approve_outcome = ApproveRejected js_error | ApproveReverted js_error | ApproveMined

text \<open>
  Every interaction of the code with its surroundings is an event, in program order.
  \<open>StatusPoll\<close> marks an invocation of \<^verbatim>\<open>getTransactionStatus\<close> and \<open>FnCall\<close> an
  invocation of the function handed to \<^verbatim>\<open>retryWithBackoff\<close> (what a spy on the function
  would record); the others are calls that leave the program.
\<close>

datatype event =
    FnCall
  | Sleep int
  | FetchRoute RouteParams
  | FetchStatus string string string string
  | StatusPoll string string string string
  | StatusUpdate TransactionStatus
  | GetSigner
  | AllowanceRead string string string "js_error + int"
  | Approve string string int approve_outcome
  | SendTransaction SentTransaction "js_error + string"
  | WaitMined string "js_error option"
  | SetState BridgeState

text \<open>
  The world: the React state cell of the hook, the wallet, the token allowances on the
  chain (token, owner, spender), and for each kind of external call the outcomes of its
  successive invocations (position 0 is the next one; a call consumes it). The outcomes
  are arbitrary: the code is deterministic, so whatever an environment answers to the
  requests it receives is one such sequence. Every external call is taken to settle; a
  promise that stays pending for ever is not modelled. A call of \<^verbatim>\<open>bridge\<close> is followed
  from its start to its end, without the steps of another call in between.
\<close>

record world =
  hook :: BridgeState
  walletAddress :: "string option"
  ethereum :: bool
  signer_address :: string
  allowances :: "string \<times> string \<times> string \<Rightarrow> int"
  route_http :: "nat \<Rightarrow> route_json fetched"
  status_http :: "nat \<Rightarrow> TransactionStatus fetched"
  signer_results :: "nat \<Rightarrow> js_error option"
  allowance_results :: "nat \<Rightarrow> js_error option"
  approve_results :: "nat \<Rightarrow> approve_outcome"
  send_results :: "nat \<Rightarrow> js_error + string"
  wait_results :: "nat \<Rightarrow> js_error option"

definition rest :: "(nat \<Rightarrow> 'a) \<Rightarrow> nat \<Rightarrow> 'a" where
  "rest f = (\<lambda>k. f (Suc k))"

text \<open>A finite script followed by a constant outcome.\<close>

definition script :: "'a list \<Rightarrow> 'a \<Rightarrow> nat \<Rightarrow> 'a" where
  "script xs d = (\<lambda>k. if k < length xs then xs ! k else d)"

section \<open>Effectful computations\<close>

text \<open>
  An asynchronous function is a function from the state before to the outcome (a thrown
  value or a result), the events it caused and the state after.
\<close>

type_synonym ('s, 'a) io = "'s \<Rightarrow> (js_error + 'a) \<times> event list \<times> 's"

definition io_return :: "'a \<Rightarrow> ('s, 'a) io" where
  "io_return a = (\<lambda>s. (Inr a, [], s))"

definition io_throw :: "js_error \<Rightarrow> ('s, 'a) io" where
  "io_throw e = (\<lambda>s. (Inl e, [], s))"

definition io_bind :: "('s, 'a) io \<Rightarrow> ('a \<Rightarrow> ('s, 'b) io) \<Rightarrow> ('s, 'b) io" where
  "io_bind m f = (\<lambda>s. case m s of
      (Inl e, evs, s') \<Rightarrow> (Inl e, evs, s')
    | (Inr a, evs, s') \<Rightarrow> (case f a s' of (r, evs', s'') \<Rightarrow> (r, evs @ evs', s'')))"

definition io_catch :: "('s, 'a) io \<Rightarrow> (js_error \<Rightarrow> ('s, 'a) io) \<Rightarrow> ('s, 'a) io" where
  "io_catch m h = (\<lambda>s. case m s of
      (Inl e, evs, s') \<Rightarrow> (case h e s' of (r, evs', s'') \<Rightarrow> (r, evs @ evs', s''))
    | (Inr a, evs, s') \<Rightarrow> (Inr a, evs, s'))"

text \<open>\<^verbatim>\<open>await new Promise(resolve => setTimeout(resolve, ms))\<close>\<close>

definition sleep :: "int \<Rightarrow> ('s, unit) io" where
  "sleep ms = (\<lambda>s. (Inr (), [Sleep ms], s))"

definition outcome :: "(js_error + 'a) \<times> event list \<times> 's \<Rightarrow> js_error + 'a" where
  "outcome r = fst r"

definition events :: "(js_error + 'a) \<times> event list \<times> 's \<Rightarrow> event list" where
  "events r = fst (snd r)"

definition after :: "(js_error + 'a) \<times> event list \<times> 's \<Rightarrow> 's" where
  "after r = snd (snd r)"

section \<open>squidService.ts: retryWithBackoff\<close>

definition isRetryable :: "js_error \<Rightarrow> bool" where
  "isRetryable e = (err_status e = Some 429 \<or> err_code e = Some (StrCode ''ECONNRESET'')
     \<or> err_code e = Some (StrCode ''ETIMEDOUT''))"

text \<open>
  The \<^verbatim>\<open>for\<close> loop of \<^verbatim>\<open>retryWithBackoff\<close>, from the value of \<^verbatim>\<open>attempt\<close> and
  \<^verbatim>\<open>lastError\<close> at the loop head. The numbers are integers; \<^verbatim>\<open>attempt\<close> is never
  negative and \<^verbatim>\<open>Math.pow(2, attempt)\<close> is exact on the values reached here.
\<close>

function retry_loop ::
  "('s, 'a) io \<Rightarrow> int \<Rightarrow> int \<Rightarrow> int \<Rightarrow> js_error \<Rightarrow> ('s, 'a) io" where
  "retry_loop fn maxRetries initialDelay attempt lastError s =
     (if attempt < maxRetries then
        (case fn s of
           (Inr v, evs, s') \<Rightarrow> (Inr v, evs, s')
         | (Inl e, evs, s') \<Rightarrow>
             if \<not> isRetryable e \<or> attempt = maxRetries - 1 then (Inl e, evs, s')
             else (case retry_loop fn maxRetries initialDelay (attempt + 1) e s' of
                     (r, evs', s'') \<Rightarrow>
                       (r, evs @ [Sleep (initialDelay * 2 ^ nat attempt)] @ evs', s'')))
      else (Inl lastError, [], s))"
  by pat_completeness auto
termination
  by (relation "measure (\<lambda>(fn, maxRetries, initialDelay, attempt, lastError, s).
        nat (maxRetries - attempt))") auto

declare retry_loop.simps [simp del]

definition retryWithBackoff :: "('s, 'a) io \<Rightarrow> int \<Rightarrow> int \<Rightarrow> ('s, 'a) io" where
  "retryWithBackoff fn maxRetries initialDelay = retry_loop fn maxRetries initialDelay 0 Undefined"

text \<open>
  A function \<^verbatim>\<open>fn\<close> given by the outcomes of its successive invocations: the state is
  what is left of the sequence, each invocation is recorded and consumes one outcome.
\<close>

definition invoke :: "(nat \<Rightarrow> js_error + 'a, 'a) io" where
  "invoke = (\<lambda>f. (f 0, [FnCall], rest f))"

definition calls :: "event list \<Rightarrow> nat" where
  "calls evs = length (filter (\<lambda>e. e = FnCall) evs)"

definition delays :: "event list \<Rightarrow> int list" where
  "delays evs = concat (map (\<lambda>e. case e of Sleep ms \<Rightarrow> [ms] | _ \<Rightarrow> []) evs)"

text \<open>An invocation that failed with an error the retry policy classifies as transient.\<close>

definition transient_failure :: "js_error + 'a \<Rightarrow> bool" where
  "transient_failure x = (case x of Inl e \<Rightarrow> isRetryable e | Inr v \<Rightarrow> False)"

definition rate_limited :: js_error where
  "rate_limited = JsError (Some 429) None ''Too Many Requests''"

definition connection_reset :: js_error where
  "connection_reset = JsError None (Some (StrCode ''ECONNRESET'')) ''socket hang up''"

section \<open>config.ts\<close>

definition CHAIN_IDS_BASE :: string where
  "CHAIN_IDS_BASE = ''8453''"

definition CHAIN_IDS_POLYGON :: string where
  "CHAIN_IDS_POLYGON = ''137''"

definition TOKENS_USDC_BASE :: string where
  "TOKENS_USDC_BASE = ''0x833589fCD6eDb6E08f4c7C32D4f71b54bdA02913''"

definition TOKENS_USDC_POLYGON :: string where
  "TOKENS_USDC_POLYGON = ''0x3c499c542cEF5E3811e1192ce70d8cC03d5c3359''"

definition TOKEN_DECIMALS_USDC :: nat where
  "TOKEN_DECIMALS_USDC = 6"

definition feeRecipientAddress :: string where
  "feeRecipientAddress = ''0xA42004A36aE97dfA691D7DF74db8FA9951dA2ed4''"

definition FEE_BASIS_POINTS :: int where
  "FEE_BASIS_POINTS = 0"

section \<open>Numbers and strings of the platform\<close>

text \<open>
  The conversions below are built into JavaScript or come from the ethers library (v6),
  not from this repository; they are written out after their documented behaviour so
  that the hook can be run on a concrete amount.
\<close>

definition digit_char :: "nat \<Rightarrow> char" where
  "digit_char d = ''0123456789'' ! d"

function string_of_nat :: "nat \<Rightarrow> string" where
  "string_of_nat n =
     (if n < 10 then [digit_char n] else string_of_nat (n div 10) @ [digit_char (n mod 10)])"
  by pat_completeness auto
termination
  by (relation "measure id") auto

declare string_of_nat.simps [simp del]

text \<open>\<^verbatim>\<open>bigint.toString()\<close>\<close>

definition bigint_toString :: "int \<Rightarrow> string" where
  "bigint_toString i = (if i < 0 then CHR ''-'' # string_of_nat (nat (- i)) else string_of_nat (nat i))"

text \<open>The position of the first occurrence of an element.\<close>

fun index_of :: "'a \<Rightarrow> 'a list \<Rightarrow> nat option" where
  "index_of x [] = None"
| "index_of x (y # ys) = (if x = y then Some 0 else map_option Suc (index_of x ys))"

text \<open>The value of a digit, up to base 16, in either case of the letters.\<close>

definition digit_val :: "char \<Rightarrow> nat option" where
  "digit_val c =
     (case index_of c ''0123456789abcdef'' of
        Some d \<Rightarrow> Some d
      | None \<Rightarrow> map_option (\<lambda>i. i + 10) (index_of c ''ABCDEF''))"

text \<open>The value of a string of digits in a base, read from the left; \<open>None\<close> on any other character.\<close>

fun digits_val :: "nat \<Rightarrow> nat \<Rightarrow> string \<Rightarrow> nat option" where
  "digits_val base acc [] = Some acc"
| "digits_val base acc (c # cs) =
     (case digit_val c of
        None \<Rightarrow> None
      | Some d \<Rightarrow> if d < base then digits_val base (base * acc + d) cs else None)"

definition literal_val :: "nat \<Rightarrow> string \<Rightarrow> nat option" where
  "literal_val base ds = (if ds = [] then None else digits_val base 0 ds)"

definition is_space :: "char \<Rightarrow> bool" where
  "is_space c = (c = CHR '' '' \<or> c = CHR 0x09 \<or> c = CHR 0x0A \<or> c = CHR 0x0B
     \<or> c = CHR 0x0C \<or> c = CHR 0x0D)"

definition trim :: "string \<Rightarrow> string" where
  "trim s = rev (dropWhile is_space (rev (dropWhile is_space s)))"

text \<open>
  \<^verbatim>\<open>BigInt(s)\<close> on a string: surrounding white space is dropped (the ASCII white space;
  a string is a list of bytes here); the empty string is 0; otherwise a decimal literal
  with an optional sign, or a literal with the prefix 0x, 0o or 0b; anything else is a
  SyntaxError.
\<close>

definition StrIntegerLiteral :: "string \<Rightarrow> int option" where
  "StrIntegerLiteral t =
     (case t of
        [] \<Rightarrow> Some 0
      | c # ds \<Rightarrow>
          if c = CHR ''+'' then map_option int (literal_val 10 ds)
          else if c = CHR ''-'' then map_option (\<lambda>n. - int n) (literal_val 10 ds)
          else if c = CHR ''0'' \<and> ds \<noteq> [] \<and> (hd ds = CHR ''x'' \<or> hd ds = CHR ''X'')
            then map_option int (literal_val 16 (tl ds))
          else if c = CHR ''0'' \<and> ds \<noteq> [] \<and> (hd ds = CHR ''o'' \<or> hd ds = CHR ''O'')
            then map_option int (literal_val 8 (tl ds))
          else if c = CHR ''0'' \<and> ds \<noteq> [] \<and> (hd ds = CHR ''b'' \<or> hd ds = CHR ''B'')
            then map_option int (literal_val 2 (tl ds))
          else map_option int (literal_val 10 t))"

definition BigInt :: "string \<Rightarrow> js_error + int" where
  "BigInt s =
     (case StrIntegerLiteral (trim s) of
        None \<Rightarrow> Inl (new_Error (''Cannot convert '' @ s @ '' to a BigInt''))
      | Some i \<Rightarrow> Inr i)"

definition is_digit :: "char \<Rightarrow> bool" where
  "is_digit c = (case digit_val c of None \<Rightarrow> False | Some d \<Rightarrow> d < 10)"

definition invalid_argument :: js_error where
  "invalid_argument =
     JsError None (Some (StrCode ''INVALID_ARGUMENT'')) ''invalid FixedNumber string value''"

definition numeric_fault :: "string \<Rightarrow> js_error" where
  "numeric_fault m = JsError None (Some (StrCode ''NUMERIC_FAULT'')) m"

text \<open>
  \<^verbatim>\<open>ethers.parseUnits(value, decimals)\<close>: the value must match
  \<^verbatim>\<open>/^(-?)([0-9]*)\.?([0-9]*)$/\<close> with at least one digit; the fraction is padded with
  zeros to \<open>decimals\<close> places and must not have a non-zero digit beyond them; the result
  must fit 512 bits.
\<close>

definition parseUnits :: "string \<Rightarrow> nat \<Rightarrow> js_error + int" where
  "parseUnits v decimals =
     (let negative = (v \<noteq> [] \<and> hd v = CHR ''-'');
          r = (if negative then tl v else v);
          whole = takeWhile is_digit r;
          r' = dropWhile is_digit r;
          frac = (if r' \<noteq> [] \<and> hd r' = CHR ''.'' then tl r' else r')
      in if \<not> list_all is_digit frac \<or> length whole + length frac = 0 then Inl invalid_argument
         else if \<not> list_all (\<lambda>c. c = CHR ''0'') (drop decimals frac)
           then Inl (numeric_fault ''too many decimals for format'')
         else (case digits_val 10 0
                      (whole @ take decimals (frac @ replicate (decimals - length frac) CHR ''0'')) of
                 None \<Rightarrow> Inl invalid_argument
               | Some n \<Rightarrow>
                   let i = (if negative then - int n else int n)
                   in if - (2 ^ 511) \<le> i \<and> i < 2 ^ 511 then Inr i
                      else Inl (numeric_fault ''overflow'')))"

text \<open>A pure computation that may throw, as a step of an asynchronous function.\<close>

definition io_lift :: "js_error + 'a \<Rightarrow> ('s, 'a) io" where
  "io_lift r = (\<lambda>s. (r, [], s))"

section \<open>squidService.ts: the quote\<close>

definition res_ok :: "nat \<Rightarrow> bool" where
  "res_ok st = (200 \<le> st \<and> st \<le> 299)"

text \<open>\<^verbatim>\<open>a || b\<close> on an optional string: the empty string and a missing value are falsy.\<close>

definition or_else :: "string option \<Rightarrow> string \<Rightarrow> string" where
  "or_else a b = (case a of None \<Rightarrow> b | Some m \<Rightarrow> if m = [] then b else m)"

definition json_parse_error :: js_error where
  "json_parse_error = new_Error ''Unexpected end of JSON input''"

text \<open>The function \<^verbatim>\<open>getRoute\<close> hands to \<^verbatim>\<open>retryWithBackoff\<close>: one POST of /v2/route.\<close>

definition route_attempt :: "RouteParams \<Rightarrow> (world, route_json) io" where
  "route_attempt requestParams = (\<lambda>w.
     let w' = w\<lparr>route_http := rest (route_http w)\<rparr> in
     (case route_http w 0 of
        FetchThrows e \<Rightarrow> (Inl e, [FetchRoute requestParams], w')
      | Response st b \<Rightarrow>
          if \<not> res_ok st then
            (Inl (new_Error
               (or_else (case b of NotJson \<Rightarrow> Some ''Unknown error'' | Json j \<Rightarrow> json_error j)
                  (''API Error: '' @ string_of_nat st))),
             [FetchRoute requestParams], w')
          else
            (case b of
               NotJson \<Rightarrow> (Inl json_parse_error, [FetchRoute requestParams], w')
             | Json j \<Rightarrow> (Inr j, [FetchRoute requestParams], w'))))"

definition getRoute :: "RouteParams \<Rightarrow> (world, RouteResponse) io" where
  "getRoute ps =
     (let requestParams =
            (if FEE_BASIS_POINTS > 0
             then ps\<lparr>collectFees := Some (feeRecipientAddress, FEE_BASIS_POINTS)\<rparr> else ps)
      in io_bind (retryWithBackoff (route_attempt requestParams) 5 1000) (\<lambda>response.
           case json_route response of
             None \<Rightarrow> io_throw (new_Error ''Invalid API response: missing route'')
           | Some r \<Rightarrow> io_return \<lparr>rr_route = r, requestId = or_else (quoteId r) []\<rparr>))"

section \<open>squidService.ts: allowance, approval, execution\<close>

definition checkAllowance :: "string \<Rightarrow> string \<Rightarrow> string \<Rightarrow> (world, int) io" where
  "checkAllowance tokenAddress ownerAddress spenderAddress = (\<lambda>w.
     let w' = w\<lparr>allowance_results := rest (allowance_results w)\<rparr>;
         r = (case allowance_results w 0 of
                Some e \<Rightarrow> Inl e
              | None \<Rightarrow> Inr (allowances w (tokenAddress, ownerAddress, spenderAddress)))
     in (r, [AllowanceRead tokenAddress ownerAddress spenderAddress r], w'))"

text \<open>
  \<^verbatim>\<open>approveToken\<close>: \<^verbatim>\<open>approve(spender, amount)\<close> is sent by the signer and awaited
  with \<^verbatim>\<open>tx.wait()\<close>. The wallet may refuse it, the transaction may revert, or it is
  mined; a mined approval sets the signer's allowance for the spender to the amount (the
  token is an ERC-20 contract).
\<close>

definition approveToken :: "string \<Rightarrow> string \<Rightarrow> int \<Rightarrow> (world, unit) io" where
  "approveToken tokenAddress spenderAddress amount = (\<lambda>w.
     let w' = w\<lparr>approve_results := rest (approve_results w)\<rparr>;
         ev = Approve tokenAddress spenderAddress amount (approve_results w 0)
     in (case approve_results w 0 of
           ApproveRejected e \<Rightarrow> (Inl e, [ev], w')
         | ApproveReverted e \<Rightarrow> (Inl e, [ev], w')
         | ApproveMined \<Rightarrow>
             (Inr (), [ev],
              w'\<lparr>allowances :=
                   (allowances w)((tokenAddress, signer_address w, spenderAddress) := amount)\<rparr>)))"

text \<open>\<^verbatim>\<open>...(x && { field: x })\<close>: the field is set when \<open>x\<close> is a non-empty string.\<close>

definition when_truthy :: "string option \<Rightarrow> string option" where
  "when_truthy x = (case x of None \<Rightarrow> None | Some v \<Rightarrow> if v = [] then None else Some v)"

definition sent_transaction :: "Route \<Rightarrow> SentTransaction" where
  "sent_transaction r =
     (let txRequest = transactionRequest r in
      \<lparr>sent_to = target txRequest,
       sent_data = data txRequest,
       sent_value = tx_value txRequest,
       sent_gasLimit = gasLimit txRequest,
       sent_gasPrice = None,
       sent_maxFeePerGas = when_truthy (maxFeePerGas txRequest),
       sent_maxPriorityFeePerGas = when_truthy (maxPriorityFeePerGas txRequest)\<rparr>)"

text \<open>\<^verbatim>\<open>executeBridge\<close> returns the transaction response; the hook reads its hash.\<close>

definition executeBridge :: "Route \<Rightarrow> (world, string) io" where
  "executeBridge r = (\<lambda>w.
     (send_results w 0, [SendTransaction (sent_transaction r) (send_results w 0)],
      w\<lparr>send_results := rest (send_results w)\<rparr>))"

text \<open>\<^verbatim>\<open>tx.wait()\<close> on the bridge transaction: resolves once it is mined, rejects if it reverted.\<close>

definition wait_mined :: "string \<Rightarrow> (world, unit) io" where
  "wait_mined h = (\<lambda>w.
     ((case wait_results w 0 of Some e \<Rightarrow> Inl e | None \<Rightarrow> Inr ()),
      [WaitMined h (wait_results w 0)],
      w\<lparr>wait_results := rest (wait_results w)\<rparr>))"

section \<open>squidService.ts: status and monitoring\<close>

definition status_attempt :: "string \<Rightarrow> string \<Rightarrow> string \<Rightarrow> string \<Rightarrow> (world, TransactionStatus) io"
  where
  "status_attempt tx_hash request_id fromChainId toChainId = (\<lambda>w.
     let w' = w\<lparr>status_http := rest (status_http w)\<rparr>;
         ev = FetchStatus tx_hash request_id fromChainId toChainId
     in (case status_http w 0 of
           FetchThrows e \<Rightarrow> (Inl e, [ev], w')
         | Response st b \<Rightarrow>
             if st = 404 then
               (Inr \<lparr>ts_id = tx_hash, ts_status = ''pending'',
                     squidTransactionStatus = ''ongoing'', ts_error = None\<rparr>, [ev], w')
             else if \<not> res_ok st then
               (Inl (new_Error
                  (or_else (case b of NotJson \<Rightarrow> Some ''Unknown error'' | Json j \<Rightarrow> ts_error j)
                     (''Status API Error: '' @ string_of_nat st))),
                [ev], w')
             else
               (case b of
                  NotJson \<Rightarrow> (Inl json_parse_error, [ev], w')
                | Json j \<Rightarrow> (Inr j, [ev], w'))))"

definition getTransactionStatus ::
  "string \<Rightarrow> string \<Rightarrow> string \<Rightarrow> string \<Rightarrow> (world, TransactionStatus) io" where
  "getTransactionStatus tx_hash request_id fromChainId toChainId = (\<lambda>w.
     case retryWithBackoff (status_attempt tx_hash request_id fromChainId toChainId) 5 1000 w of
       (r, evs, w') \<Rightarrow> (r, StatusPoll tx_hash request_id fromChainId toChainId # evs, w'))"

definition terminal :: "TransactionStatus \<Rightarrow> bool" where
  "terminal st = (squidTransactionStatus st \<in>
     set [''success'', ''partial_success'', ''needs_gas'', ''failed''])"

text \<open>
  The callback \<^verbatim>\<open>onStatusUpdate\<close>, when supplied, is a function of the status that
  returns, or throws (\<open>Some e\<close>).
\<close>

type_synonym callback = "(TransactionStatus \<Rightarrow> js_error option) option"

definition notify :: "callback \<Rightarrow> TransactionStatus \<Rightarrow> (world, unit) io" where
  "notify onStatusUpdate st = (\<lambda>w.
     case onStatusUpdate of
       None \<Rightarrow> (Inr (), [], w)
     | Some cb \<Rightarrow> ((case cb st of None \<Rightarrow> Inr () | Some e \<Rightarrow> Inl e), [StatusUpdate st], w))"

datatype 'a loop_step = Return 'a | Continue

text \<open>The body of the \<^verbatim>\<open>while\<close> loop of \<^verbatim>\<open>monitorTransaction\<close>: its \<^verbatim>\<open>try\<close> and \<^verbatim>\<open>catch\<close>.\<close>

definition poll_once ::
  "string \<Rightarrow> string \<Rightarrow> string \<Rightarrow> string \<Rightarrow> callback \<Rightarrow> int \<Rightarrow> (world, TransactionStatus loop_step) io"
  where
  "poll_once tx_hash request_id fromChainId toChainId onStatusUpdate pollInterval =
     io_catch
       (io_bind (getTransactionStatus tx_hash request_id fromChainId toChainId) (\<lambda>st.
        io_bind (notify onStatusUpdate st) (\<lambda>u.
          if terminal st then io_return (Return st)
          else io_bind (sleep pollInterval) (\<lambda>u. io_return Continue))))
       (\<lambda>err. io_bind (sleep pollInterval) (\<lambda>u. io_return Continue))"

definition maxAttempts :: nat where
  "maxAttempts = 60"

definition monitoring_timeout :: js_error where
  "monitoring_timeout = new_Error ''Transaction monitoring timeout - please check block explorer''"

function monitor_loop ::
  "string \<Rightarrow> string \<Rightarrow> string \<Rightarrow> string \<Rightarrow> callback \<Rightarrow> int \<Rightarrow> nat \<Rightarrow> (world, TransactionStatus) io"
  where
  "monitor_loop tx_hash request_id fromChainId toChainId onStatusUpdate pollInterval attempts w =
     (if attempts < maxAttempts then
        (case poll_once tx_hash request_id fromChainId toChainId onStatusUpdate pollInterval w of
           (Inl e, evs, w') \<Rightarrow> (Inl e, evs, w')
         | (Inr (Return st), evs, w') \<Rightarrow> (Inr st, evs, w')
         | (Inr Continue, evs, w') \<Rightarrow>
             (case monitor_loop tx_hash request_id fromChainId toChainId onStatusUpdate pollInterval
                     (attempts + 1) w' of
                (r, evs', w'') \<Rightarrow> (r, evs @ evs', w'')))
      else (Inl monitoring_timeout, [], w))"
  by pat_completeness auto
termination
  by (relation "measure (\<lambda>(tx_hash, request_id, fromChainId, toChainId, onStatusUpdate,
        pollInterval, attempts, w). maxAttempts - attempts)") auto

declare monitor_loop.simps [simp del]

definition monitorTransaction ::
  "string \<Rightarrow> string \<Rightarrow> string \<Rightarrow> string \<Rightarrow> callback \<Rightarrow> int \<Rightarrow> (world, TransactionStatus) io"
  where
  "monitorTransaction tx_hash request_id fromChainId toChainId onStatusUpdate pollInterval =
     io_bind (sleep 3000) (\<lambda>u.
       monitor_loop tx_hash request_id fromChainId toChainId onStatusUpdate pollInterval 0)"

section \<open>useSquidBridge.ts: the hook\<close>

text \<open>\<^verbatim>\<open>setState(prev => ...)\<close>: the update is applied to the state cell and seen by the UI.\<close>

definition setState :: "(BridgeState \<Rightarrow> BridgeState) \<Rightarrow> (world, unit) io" where
  "setState upd = (\<lambda>w. (Inr (), [SetState (upd (hook w))], w\<lparr>hook := upd (hook w)\<rparr>))"

text \<open>\<^verbatim>\<open>await provider.getSigner()\<close>\<close>

definition getSigner :: "(world, unit) io" where
  "getSigner = (\<lambda>w.
     ((case signer_results w 0 of Some e \<Rightarrow> Inl e | None \<Rightarrow> Inr ()), [GetSigner],
      w\<lparr>signer_results := rest (signer_results w)\<rparr>))"

text \<open>
  Step 2 of \<^verbatim>\<open>bridge\<close> after the status is set: the allowance of the wallet address for
  the plan's target is read, and the token is approved for the plan's amount when the
  allowance is below it.
\<close>

definition ensure_allowance :: "string \<Rightarrow> Route \<Rightarrow> (world, unit) io" where
  "ensure_allowance wallet r =
     io_bind (checkAllowance TOKENS_USDC_BASE wallet (target (transactionRequest r))) (\<lambda>allowance.
     io_bind (io_lift (BigInt (fromAmount (params r)))) (\<lambda>amountBigInt.
       if allowance < amountBigInt
       then approveToken TOKENS_USDC_BASE (target (transactionRequest r)) amountBigInt
       else io_return ()))"

text \<open>The \<^verbatim>\<open>catch\<close> block of \<^verbatim>\<open>bridge\<close>; reading a property of \<^verbatim>\<open>undefined\<close> throws.\<close>

definition bridge_catch :: "js_error \<Rightarrow> (world, string \<times> TransactionStatus) io" where
  "bridge_catch err =
     (case err of
        Undefined \<Rightarrow> io_throw (new_Error ''Cannot read properties of undefined'')
      | JsError s c m \<Rightarrow>
          (let errorMessage =
                 (if c = Some (NumCode 4001) then ''Transaction rejected by user''
                  else if c = Some (StrCode ''INSUFFICIENT_FUNDS'')
                    then ''Insufficient funds for transaction''
                  else if m \<noteq> [] then m
                  else ''Bridge transaction failed'')
           in io_bind (setState (\<lambda>prev. prev\<lparr>isLoading := False, error := Some errorMessage,
                                            status := Error\<rparr>))
                (\<lambda>u. io_throw err)))"

text \<open>
  The \<^verbatim>\<open>try\<close> block of \<^verbatim>\<open>bridge\<close>, for the connected wallet address, in the four
  steps its comments name. Step 1 fetches the route and stores it.
\<close>

definition bridge_quote :: "string \<Rightarrow> string \<Rightarrow> (world, RouteResponse) io" where
  "bridge_quote wallet amount =
     io_bind (setState (\<lambda>prev. prev\<lparr>status := Idle\<rparr>)) (\<lambda>u.
     io_bind (io_lift (parseUnits amount TOKEN_DECIMALS_USDC)) (\<lambda>amountInWei.
     io_bind (getRoute \<lparr>fromChain = CHAIN_IDS_BASE, toChain = CHAIN_IDS_POLYGON,
                        fromToken = TOKENS_USDC_BASE, toToken = TOKENS_USDC_POLYGON,
                        fromAmount = bigint_toString amountInWei,
                        fromAddress = wallet, toAddress = wallet,
                        slippage = 1, collectFees = None\<rparr>) (\<lambda>resp.
     io_bind (setState (\<lambda>prev. prev\<lparr>route := Some (rr_route resp)\<rparr>)) (\<lambda>u.
       io_return resp))))"

text \<open>Step 2 checks the allowance and approves the token if needed.\<close>

definition bridge_approve :: "string \<Rightarrow> Route \<Rightarrow> (world, unit) io" where
  "bridge_approve wallet r =
     io_bind (setState (\<lambda>prev. prev\<lparr>status := Approving\<rparr>)) (\<lambda>u.
       ensure_allowance wallet r)"

text \<open>Step 3 sends the bridge transaction and waits for its confirmation.\<close>

definition bridge_execute :: "Route \<Rightarrow> (world, string) io" where
  "bridge_execute r =
     io_bind (setState (\<lambda>prev. prev\<lparr>status := Bridging\<rparr>)) (\<lambda>u.
     io_bind (executeBridge r) (\<lambda>tx_hash.
     io_bind (setState (\<lambda>prev. prev\<lparr>txHash := Some tx_hash\<rparr>)) (\<lambda>u.
     io_bind (wait_mined tx_hash) (\<lambda>u.
       io_return tx_hash))))"

text \<open>Step 4 monitors the transfer; its callback logs the status and returns.\<close>

definition bridge_monitor :: "string \<Rightarrow> string \<Rightarrow> (world, string \<times> TransactionStatus) io" where
  "bridge_monitor tx_hash request_id =
     io_bind (setState (\<lambda>prev. prev\<lparr>status := Monitoring\<rparr>)) (\<lambda>u.
     io_bind (monitorTransaction tx_hash request_id CHAIN_IDS_BASE CHAIN_IDS_POLYGON
                (Some (\<lambda>st. None)) 5000) (\<lambda>finalStatus.
       if squidTransactionStatus finalStatus = ''success''
       then io_bind (setState (\<lambda>prev. prev\<lparr>status := Success, isLoading := False\<rparr>))
              (\<lambda>u. io_return (tx_hash, finalStatus))
       else io_throw (new_Error (''Bridge failed with status: ''
                                   @ squidTransactionStatus finalStatus))))"

definition bridge_try :: "string \<Rightarrow> string \<Rightarrow> (world, string \<times> TransactionStatus) io" where
  "bridge_try wallet amount =
     io_bind getSigner (\<lambda>u.
     io_bind (bridge_quote wallet amount) (\<lambda>resp.
     io_bind (bridge_approve wallet (rr_route resp)) (\<lambda>u.
     io_bind (bridge_execute (rr_route resp)) (\<lambda>tx_hash.
       bridge_monitor tx_hash (requestId resp)))))"

definition bridge :: "string \<Rightarrow> (world, string \<times> TransactionStatus) io" where
  "bridge amount = (\<lambda>w.
     case walletAddress w of
       None \<Rightarrow> io_throw (new_Error ''Wallet not connected'') w
     | Some wallet \<Rightarrow>
         if wallet = [] \<or> \<not> ethereum w then io_throw (new_Error ''Wallet not connected'') w
         else io_bind
                (setState (\<lambda>prev. prev\<lparr>isLoading := True, error := None, status := Idle\<rparr>))
                (\<lambda>u. io_catch (bridge_try wallet amount) bridge_catch) w)"

section \<open>Reading a run\<close>

text \<open>The states the hook went through, the approvals and transactions it asked for.\<close>

definition states :: "event list \<Rightarrow> BridgeState list" where
  "states evs = concat (map (\<lambda>e. case e of SetState st \<Rightarrow> [st] | _ \<Rightarrow> []) evs)"

text \<open>The status values an observer of the hook sees, each change once.\<close>

definition observed_statuses :: "event list \<Rightarrow> bridge_status list" where
  "observed_statuses evs = remdups_adj (map status (states evs))"

definition approvals :: "event list \<Rightarrow> (string \<times> string \<times> int) list" where
  "approvals evs = concat (map (\<lambda>e. case e of Approve t s a out \<Rightarrow> [(t, s, a)] | _ \<Rightarrow> []) evs)"

definition sent :: "event list \<Rightarrow> SentTransaction list" where
  "sent evs = concat (map (\<lambda>e. case e of SendTransaction tx out \<Rightarrow> [tx] | _ \<Rightarrow> []) evs)"

text \<open>The requests sent to the quote service, in order.\<close>

definition quotes :: "event list \<Rightarrow> RouteParams list" where
  "quotes evs = concat (map (\<lambda>e. case e of FetchRoute p \<Rightarrow> [p] | _ \<Rightarrow> []) evs)"

definition updates :: "event list \<Rightarrow> TransactionStatus list" where
  "updates evs = concat (map (\<lambda>e. case e of StatusUpdate st \<Rightarrow> [st] | _ \<Rightarrow> []) evs)"

definition polls :: "event list \<Rightarrow> nat" where
  "polls evs = length (filter (\<lambda>e. case e of StatusPoll a b c d \<Rightarrow> True | _ \<Rightarrow> False) evs)"

text \<open>The calls that go over the network: HTTP requests and calls to the chain or the wallet.\<close>

definition network_calls :: "event list \<Rightarrow> event list" where
  "network_calls evs = filter (\<lambda>e. case e of
       FetchRoute p \<Rightarrow> True | FetchStatus a b c d \<Rightarrow> True | GetSigner \<Rightarrow> True
     | AllowanceRead t ow sp r \<Rightarrow> True | Approve t sp a out \<Rightarrow> True
     | SendTransaction tx out \<Rightarrow> True | WaitMined h out \<Rightarrow> True | _ \<Rightarrow> False) evs"

text \<open>The events of an HTTP call under the retry policy: requests and delays.\<close>

definition request_or_delay :: "event \<Rightarrow> bool" where
  "request_or_delay e =
     (case e of Sleep ms \<Rightarrow> True | FetchRoute p \<Rightarrow> True | FetchStatus a b c d \<Rightarrow> True
      | _ \<Rightarrow> False)"

text \<open>
  A request that got no response and failed with an error the retry policy classifies as
  transient. A response, whatever its status, is not one: the error the code throws for
  it has neither \<^verbatim>\<open>status\<close> nor \<^verbatim>\<open>code\<close>.
\<close>

definition transient_fetch :: "'a fetched \<Rightarrow> bool" where
  "transient_fetch x = (case x of FetchThrows e \<Rightarrow> isRetryable e | Response st b \<Rightarrow> False)"

text \<open>What the callback is told after a poll, and whether it lets the loop go on to the check.\<close>

definition notified :: "callback \<Rightarrow> js_error + TransactionStatus \<Rightarrow> event list" where
  "notified onStatusUpdate r =
     (case onStatusUpdate of
        None \<Rightarrow> []
      | Some cb \<Rightarrow> (case r of Inl e \<Rightarrow> [] | Inr st \<Rightarrow> [StatusUpdate st]))"

definition returns_normally :: "callback \<Rightarrow> TransactionStatus \<Rightarrow> bool" where
  "returns_normally onStatusUpdate st =
     (case onStatusUpdate of None \<Rightarrow> True | Some cb \<Rightarrow> cb st = None)"

text \<open>
  Events that are neither a state update of the hook, nor an approval, nor a transaction
  sent: what the quote and the monitor cause.
\<close>

definition silent :: "event \<Rightarrow> bool" where
  "silent e =
     (case e of SetState st \<Rightarrow> False | Approve t s a out \<Rightarrow> False
      | SendTransaction tx out \<Rightarrow> False | AllowanceRead t ow s r \<Rightarrow> False
      | WaitMined h out \<Rightarrow> False | _ \<Rightarrow> True)"

text \<open>
  Two states of the world that differ at most in the state the hook shows; and a function
  that is blind to that state: from two such states of the world it ends with the same
  outcome after the same network calls, in states that differ at most in that state again.
\<close>

definition alike :: "world \<Rightarrow> world \<Rightarrow> bool" where
  "alike w1 w2 = (w1 = w2\<lparr>hook := hook w1\<rparr>)"

definition blind :: "(world, 'a) io \<Rightarrow> bool" where
  "blind m = (\<forall>w1 w2. alike w1 w2 \<longrightarrow>
       outcome (m w1) = outcome (m w2)
     \<and> network_calls (events (m w1)) = network_calls (events (m w2))
     \<and> alike (after (m w1)) (after (m w2)))"

section \<open>What must come before a step\<close>

text \<open>
  The allowance of the wallet for the plan's target has been verified to cover the plan's
  amount: it was read, and either the value read covers the amount or an approval of the
  amount has been mined since.
\<close>

definition allowance_verified :: "string \<Rightarrow> Route \<Rightarrow> event list \<Rightarrow> bool" where
  "allowance_verified wallet r pre =
     (case BigInt (fromAmount (params r)) of
        Inl e \<Rightarrow> False
      | Inr a \<Rightarrow>
          list_ex (\<lambda>ev. case ev of
              AllowanceRead t ow sp (Inr v) \<Rightarrow>
                t = TOKENS_USDC_BASE \<and> ow = wallet \<and> sp = target (transactionRequest r) \<and> a \<le> v
            | Approve t sp a' ApproveMined \<Rightarrow>
                t = TOKENS_USDC_BASE \<and> sp = target (transactionRequest r) \<and> a' = a
            | _ \<Rightarrow> False) pre)"

text \<open>The transaction with this hash was sent and has been confirmed mined.\<close>

definition confirmed_mined :: "string \<Rightarrow> event list \<Rightarrow> bool" where
  "confirmed_mined h pre =
     (list_ex (\<lambda>ev. case ev of SendTransaction tx (Inr h') \<Rightarrow> h' = h | _ \<Rightarrow> False) pre
      \<and> list_ex (\<lambda>ev. case ev of WaitMined h' None \<Rightarrow> h' = h | _ \<Rightarrow> False) pre)"

text \<open>
  A run is sequenced when, at every point of it, the hook shows the status \<open>Bridging\<close> only
  with a stored plan whose allowance has been verified before, sends a transaction only
  after it has shown that status, and shows the status \<open>Monitoring\<close> only with a stored
  transaction hash that has been confirmed mined before. \<open>pre\<close> is the part of the run already seen.
\<close>

fun sequenced :: "string \<Rightarrow> event list \<Rightarrow> event list \<Rightarrow> bool" where
  "sequenced wallet pre [] = True"
| "sequenced wallet pre (ev # evs) =
     ((case ev of
         SetState st \<Rightarrow>
           (status st = Bridging \<longrightarrow>
              (case route st of None \<Rightarrow> False | Some r \<Rightarrow> allowance_verified wallet r pre))
           \<and> (status st = Monitoring \<longrightarrow>
              (case txHash st of None \<Rightarrow> False | Some h \<Rightarrow> confirmed_mined h pre))
       | SendTransaction tx out \<Rightarrow>
           list_ex (\<lambda>p. case p of SetState st \<Rightarrow> status st = Bridging | _ \<Rightarrow> False) pre
       | _ \<Rightarrow> True)
      \<and> sequenced wallet (pre @ [ev]) evs)"

text \<open>The number of HTTP requests in a run.\<close>

definition requests :: "event list \<Rightarrow> nat" where
  "requests evs = length (filter (\<lambda>e. case e of
       FetchRoute p \<Rightarrow> True | FetchStatus a b c d \<Rightarrow> True | _ \<Rightarrow> False) evs)"

section \<open>A run in which every step succeeds\<close>

definition plan :: "string \<Rightarrow> Route" where
  "plan amt =
     \<lparr>transactionRequest =
        \<lparr>target = ''0xce16F69375520ab01377ce7B88f5BA8C48F8D666'', data = ''0x846a1bc6'',
         tx_value = ''0'', gasLimit = ''600000'', gasPrice = Some ''12000000'',
         maxFeePerGas = Some ''15000000'', maxPriorityFeePerGas = Some ''1000000''\<rparr>,
      params =
        \<lparr>fromChain = CHAIN_IDS_BASE, toChain = CHAIN_IDS_POLYGON,
         fromToken = TOKENS_USDC_BASE, toToken = TOKENS_USDC_POLYGON, fromAmount = amt,
         fromAddress = ''0xAlice'', toAddress = ''0xAlice'', slippage = 1, collectFees = None\<rparr>,
      quoteId = Some ''quote-1''\<rparr>"

definition transfer_status :: "string \<Rightarrow> TransactionStatus" where
  "transfer_status x = \<lparr>ts_id = ''0xb1'', ts_status = ''seen'', squidTransactionStatus = x,
     ts_error = None\<rparr>"

definition idle_state :: BridgeState where
  "idle_state = \<lparr>isLoading = False, error = None, status = Idle, txHash = None, route = None\<rparr>"

text \<open>
  The wallet 0xAlice is connected and has approved nothing; the quote answers with the
  plan for 10 USDC; the status endpoint answers 404, then ongoing, then success.
\<close>

definition good_world :: world where
  "good_world =
     \<lparr>hook = idle_state, walletAddress = Some ''0xAlice'', ethereum = True,
      signer_address = ''0xAlice'', allowances = (\<lambda>k. 0),
      route_http = script [] (Response 200 (Json \<lparr>json_error = None,
                                              json_route = Some (plan ''10000000'')\<rparr>)),
      status_http = script [Response 404 NotJson, Response 200 (Json (transfer_status ''ongoing''))]
                      (Response 200 (Json (transfer_status ''success''))),
      signer_results = script [] None, allowance_results = script [] None,
      approve_results = script [] ApproveMined, send_results = script [] (Inr ''0xb1''),
      wait_results = script [] None\<rparr>"

section \<open>The outcomes of successive polls\<close>

text \<open>
  What the first \<open>n\<close> invocations of \<^verbatim>\<open>getTransactionStatus\<close> give, one after the other,
  from a state of the world on: the poll-outcome sequence the monitor meets.
\<close>

fun poll_outcomes ::
  "string \<Rightarrow> string \<Rightarrow> string \<Rightarrow> string \<Rightarrow> nat \<Rightarrow> world \<Rightarrow> (js_error + TransactionStatus) list"
  where
  "poll_outcomes tx_hash request_id fromChainId toChainId 0 w = []"
| "poll_outcomes tx_hash request_id fromChainId toChainId (Suc n) w =
     outcome (getTransactionStatus tx_hash request_id fromChainId toChainId w)
     # poll_outcomes tx_hash request_id fromChainId toChainId n
         (after (getTransactionStatus tx_hash request_id fromChainId toChainId w))"

definition successes :: "(js_error + 'a) list \<Rightarrow> 'a list" where
  "successes rs = concat (map (\<lambda>r. case r of Inl e \<Rightarrow> [] | Inr x \<Rightarrow> [x]) rs)"

text \<open>A poll that did not return a terminal status: it failed, or its status is not terminal.\<close>

definition not_terminal :: "js_error + TransactionStatus \<Rightarrow> bool" where
  "not_terminal r = (case r of Inl e \<Rightarrow> True | Inr st \<Rightarrow> \<not> terminal st)"

text \<open>The same world with a status endpoint that never knows the transaction (404 for ever).\<close>

definition pending_world :: world where
  "pending_world = good_world\<lparr>status_http := (\<lambda>k. Response 404 NotJson)\<rparr>"

text \<open>The same world with a status endpoint that cannot be reached.\<close>

definition offline_world :: world where
  "offline_world = good_world\<lparr>status_http := (\<lambda>k. FetchThrows (new_Error ''Failed to fetch''))\<rparr>"

definition not_indexed :: "string \<Rightarrow> TransactionStatus" where
  "not_indexed tx_hash = \<lparr>ts_id = tx_hash, ts_status = ''pending'',
     squidTransactionStatus = ''ongoing'', ts_error = None\<rparr>"

text \<open>The same world at a moment when an attempt is in flight: the hook shows \<open>Approving\<close>.\<close>

definition busy_world :: world where
  "busy_world = good_world\<lparr>hook := idle_state\<lparr>isLoading := True, status := Approving\<rparr>\<rparr>"

text \<open>The same world with no wallet connected.\<close>

definition disconnected_world :: world where
  "disconnected_world = good_world\<lparr>walletAddress := None\<rparr>"

text \<open>A plan whose target is the empty string, and a quote service that answers with it.\<close>

definition blank_plan :: Route where
  "blank_plan = (plan ''10000000'')
     \<lparr>transactionRequest := (transactionRequest (plan ''10000000''))\<lparr>target := []\<rparr>\<rparr>"

definition careless_world :: world where
  "careless_world = good_world
     \<lparr>route_http := script [] (Response 200 (Json \<lparr>json_error = None,
                                                  json_route = Some blank_plan\<rparr>))\<rparr>"

text \<open>A quote service that is rate limited, and one that answers without a route.\<close>

definition limited_world :: world where
  "limited_world = good_world
     \<lparr>route_http := script [] (Response 429 (Json \<lparr>json_error = Some ''Too Many Requests'',
                                                  json_route = None\<rparr>))\<rparr>"

definition routeless_world :: world where
  "routeless_world = good_world
     \<lparr>route_http := script [] (Response 200 (Json \<lparr>json_error = None, json_route = None\<rparr>))\<rparr>"

text \<open>A plan with a legacy gas price and no EIP-1559 fee fields.\<close>

definition legacy_plan :: Route where
  "legacy_plan = (plan ''10000000'')
     \<lparr>transactionRequest := (transactionRequest (plan ''10000000''))
        \<lparr>maxFeePerGas := None, maxPriorityFeePerGas := None\<rparr>\<rparr>"

text \<open>The same world after the wallet has approved the plan's target for 10 USDC.\<close>

definition approved_world :: world where
  "approved_world = good_world
     \<lparr>allowances := (\<lambda>k. if k = (TOKENS_USDC_BASE, ''0xAlice'',
                                    ''0xce16F69375520ab01377ce7B88f5BA8C48F8D666'')
                            then 10000000 else 0)\<rparr>"

text \<open>The same world with a status endpoint whose connection is reset on every request.\<close>

definition flaky_world :: world where
  "flaky_world = good_world\<lparr>status_http := (\<lambda>k. FetchThrows connection_reset)\<rparr>"

text \<open>An attempt in flight and a wallet that refuses to give the signer.\<close>

definition refusing_world :: world where
  "refusing_world = busy_world
     \<lparr>signer_results :=
        script [] (Some (JsError None (Some (NumCode 4001)) ''User rejected the request''))\<rparr>"

text \<open>A quote service that answers the request for 10 USDC with a plan for 5 USDC.\<close>

definition half_world :: world where
  "half_world = good_world
     \<lparr>route_http := script [] (Response 200 (Json \<lparr>json_error = None,
                                                  json_route = Some (plan ''5000000'')\<rparr>))\<rparr>"

text \<open>
  A quote service whose connection is reset once and that answers 500 then, and one that
  cannot be reached.
\<close>

definition reset_once_world :: world where
  "reset_once_world = good_world
     \<lparr>route_http := script [FetchThrows connection_reset]
        (Response 500 (Json \<lparr>json_error = Some ''Internal Server Error'', json_route = None\<rparr>))\<rparr>"

definition unreachable_world :: world where
  "unreachable_world = good_world\<lparr>route_http := (\<lambda>k. FetchThrows (new_Error ''Failed to fetch''))\<rparr>"

text \<open>
  A token whose first approval reverts, and a wallet whose signing account is not the
  address the hook was given.
\<close>

definition reverting_world :: world where
  "reverting_world = good_world
     \<lparr>approve_results :=
        script [ApproveReverted (JsError None (Some (StrCode ''CALL_EXCEPTION''))
                                   ''transaction execution reverted'')] ApproveMined\<rparr>"

definition other_signer_world :: world where
  "other_signer_world = good_world\<lparr>signer_address := ''0xBob''\<rparr>"

section \<open>The retry policy\<close>

lemma rest_apply [simp]: "rest f k = f (Suc k)"
  by (simp add: rest_def)

lemma script_Nil [simp]: "script [] d k = d"
  by (simp add: script_def)

lemma script_Cons_0 [simp]: "script (x # xs) d 0 = x"
  by (simp add: script_def)

lemma script_Cons_Suc [simp]: "script (x # xs) d (Suc k) = script xs d k"
  by (simp add: script_def)

lemma calls_simps [simp]:
  "calls [] = 0"
  "calls (FnCall # evs) = Suc (calls evs)"
  "calls (Sleep ms # evs) = calls evs"
  "calls (xs @ ys) = calls xs + calls ys"
  by (simp_all add: calls_def)

lemma delays_simps [simp]:
  "delays [] = []"
  "delays (FnCall # evs) = delays evs"
  "delays (Sleep ms # evs) = ms # delays evs"
  "delays (xs @ ys) = delays xs @ delays ys"
  by (simp_all add: delays_def)

lemma isRetryable_examples [simp]:
  "isRetryable rate_limited" "isRetryable connection_reset" "\<not> isRetryable (new_Error m)"
  "\<not> isRetryable Undefined"
  by (simp_all add: isRetryable_def rate_limited_def connection_reset_def new_Error_def)

lemma transient_failure_simps [simp]:
  "transient_failure (Inl e) = isRetryable e" "\<not> transient_failure (Inr v)"
  by (simp_all add: transient_failure_def)

lemma transient_failureE:
  assumes "transient_failure x"
  obtains e where "x = Inl e" "isRetryable e"
  using assms by (cases x) (simp_all add: transient_failure_def)

lemmas retry_unfold =
  retryWithBackoff_def retry_loop.simps invoke_def events_def outcome_def

lemma retry_calls_le_5: "calls (events (retryWithBackoff invoke 5 1000 f)) \<le> 5"
  by (simp add: retry_unfold split: sum.splits)

lemma retry_4_then_success:
  assumes "\<forall>k<4. transient_failure (f k)" and "f 4 = Inr v"
  shows "outcome (retryWithBackoff invoke 5 1000 f) = Inr v \<and>
         calls (events (retryWithBackoff invoke 5 1000 f)) = 5 \<and>
         delays (events (retryWithBackoff invoke 5 1000 f)) = [1000, 2000, 4000, 8000]"
proof -
  have t: "transient_failure (f 0)" "transient_failure (f (Suc 0))"
    "transient_failure (f (Suc (Suc 0)))" "transient_failure (f (Suc (Suc (Suc 0))))"
    using assms(1) by simp_all
  from t(1) obtain e0 where e0: "f 0 = Inl e0" "isRetryable e0" by (rule transient_failureE)
  from t(2) obtain e1 where e1: "f (Suc 0) = Inl e1" "isRetryable e1" by (rule transient_failureE)
  from t(3) obtain e2 where e2: "f (Suc (Suc 0)) = Inl e2" "isRetryable e2"
    by (rule transient_failureE)
  from t(4) obtain e3 where e3: "f (Suc (Suc (Suc 0))) = Inl e3" "isRetryable e3"
    by (rule transient_failureE)
  have s: "f (Suc (Suc (Suc (Suc 0)))) = Inr v"
    using assms(2) by (simp add: eval_nat_numeral)
  show ?thesis
    by (simp add: retry_unfold e0 e1 e2 e3 s)
qed

lemma retry_5_failures:
  assumes "\<forall>k<5. transient_failure (f k)"
  shows "outcome (retryWithBackoff invoke 5 1000 f) = f 4 \<and>
         calls (events (retryWithBackoff invoke 5 1000 f)) = 5 \<and>
         delays (events (retryWithBackoff invoke 5 1000 f)) = [1000, 2000, 4000, 8000]"
proof -
  have t: "transient_failure (f 0)" "transient_failure (f (Suc 0))"
    "transient_failure (f (Suc (Suc 0)))" "transient_failure (f (Suc (Suc (Suc 0))))"
    "transient_failure (f 4)"
    using assms(1) by simp_all
  from t(1) obtain e0 where e0: "f 0 = Inl e0" "isRetryable e0" by (rule transient_failureE)
  from t(2) obtain e1 where e1: "f (Suc 0) = Inl e1" "isRetryable e1" by (rule transient_failureE)
  from t(3) obtain e2 where e2: "f (Suc (Suc 0)) = Inl e2" "isRetryable e2"
    by (rule transient_failureE)
  from t(4) obtain e3 where e3: "f (Suc (Suc (Suc 0))) = Inl e3" "isRetryable e3"
    by (rule transient_failureE)
  from t(5) obtain e4 where e4: "f 4 = Inl e4" "isRetryable e4" by (rule transient_failureE)
  have s: "f (Suc (Suc (Suc (Suc 0)))) = Inl e4"
    using e4(1) by (simp add: eval_nat_numeral)
  show ?thesis
    by (simp add: retry_unfold e0 e1 e2 e3 e4 s)
qed

lemma retry_fatal:
  assumes "n < 5" and "\<forall>k<n. transient_failure (f k)" and "f n = Inl e" and "\<not> isRetryable e"
  shows "outcome (retryWithBackoff invoke 5 1000 f) = Inl e \<and>
         calls (events (retryWithBackoff invoke 5 1000 f)) = n + 1 \<and>
         delays (events (retryWithBackoff invoke 5 1000 f)) = map (\<lambda>k. 1000 * 2 ^ k) [0..<n]"
proof -
  have t: "0 < n \<Longrightarrow> transient_failure (f 0)" "1 < n \<Longrightarrow> transient_failure (f (Suc 0))"
    "2 < n \<Longrightarrow> transient_failure (f (Suc (Suc 0)))"
    "3 < n \<Longrightarrow> transient_failure (f (Suc (Suc (Suc 0))))"
    using assms(2) by (simp_all add: eval_nat_numeral)
  from assms(1) consider "n = 0" | "n = 1" | "n = 2" | "n = 3" | "n = 4"
    by linarith
  then show ?thesis
  proof cases
    case 1
    with assms(3,4) show ?thesis by (simp add: retry_unfold)
  next
    case 2
    with t(1) obtain e0 where e0: "f 0 = Inl e0" "isRetryable e0"
      by (auto elim: transient_failureE)
    from 2 assms(3) have s: "f (Suc 0) = Inl e" by simp
    show ?thesis using 2 assms(4) by (simp add: retry_unfold e0 s)
  next
    case 3
    with t(1) obtain e0 where e0: "f 0 = Inl e0" "isRetryable e0"
      by (auto elim: transient_failureE)
    from 3 t(2) obtain e1 where e1: "f (Suc 0) = Inl e1" "isRetryable e1"
      by (auto elim: transient_failureE)
    from 3 assms(3) have s: "f (Suc (Suc 0)) = Inl e" by (simp add: eval_nat_numeral)
    show ?thesis using 3 assms(4) by (simp add: retry_unfold e0 e1 s upt_rec)
  next
    case 4
    with t(1) obtain e0 where e0: "f 0 = Inl e0" "isRetryable e0"
      by (auto elim: transient_failureE)
    from 4 t(2) obtain e1 where e1: "f (Suc 0) = Inl e1" "isRetryable e1"
      by (auto elim: transient_failureE)
    from 4 t(3) obtain e2 where e2: "f (Suc (Suc 0)) = Inl e2" "isRetryable e2"
      by (auto elim: transient_failureE)
    from 4 assms(3) have s: "f (Suc (Suc (Suc 0))) = Inl e" by (simp add: eval_nat_numeral)
    show ?thesis using 4 assms(4) by (simp add: retry_unfold e0 e1 e2 s upt_rec)
  next
    case 5
    with t(1) obtain e0 where e0: "f 0 = Inl e0" "isRetryable e0"
      by (auto elim: transient_failureE)
    from 5 t(2) obtain e1 where e1: "f (Suc 0) = Inl e1" "isRetryable e1"
      by (auto elim: transient_failureE)
    from 5 t(3) obtain e2 where e2: "f (Suc (Suc 0)) = Inl e2" "isRetryable e2"
      by (auto elim: transient_failureE)
    from 5 t(4) obtain e3 where e3: "f (Suc (Suc (Suc 0))) = Inl e3" "isRetryable e3"
      by (auto elim: transient_failureE)
    from 5 assms(3) have s: "f (Suc (Suc (Suc (Suc 0)))) = Inl e" by (simp add: eval_nat_numeral)
    show ?thesis using 5 assms(4) by (simp add: retry_unfold e0 e1 e2 e3 s upt_rec)
  qed
qed

text \<open>
  C3. \<^verbatim>\<open>retryWithBackoff(fn, 5, 1000)\<close>, for \<^verbatim>\<open>fn\<close> given by any sequence \<open>f\<close> of
  outcomes: \<^verbatim>\<open>fn\<close> is invoked at most 5 times; four transient failures followed by a
  success give the success value after the delays 1000, 2000, 4000 and 8000 ms, 15 s in
  all; five transient failures raise the fifth error after five invocations; and a
  failure that is not transient, met at invocation \<open>n + 1\<close> after \<open>n\<close> transient ones,
  is raised at once: no further invocation, and no delay but the \<open>n\<close> of the earlier
  retries.
\<close>

theorem retryWithBackoff_policy:
  fixes f :: "nat \<Rightarrow> js_error + 'a" and v :: 'a and n :: nat and e :: js_error
  shows
  "calls (events (retryWithBackoff invoke 5 1000 f)) \<le> 5
   \<and> ((\<forall>k<4. transient_failure (f k)) \<and> f 4 = Inr v \<longrightarrow>
        outcome (retryWithBackoff invoke 5 1000 f) = Inr v
        \<and> delays (events (retryWithBackoff invoke 5 1000 f)) = [1000, 2000, 4000, 8000]
        \<and> sum_list (delays (events (retryWithBackoff invoke 5 1000 f))) = 15000)
   \<and> ((\<forall>k<5. transient_failure (f k)) \<longrightarrow>
        outcome (retryWithBackoff invoke 5 1000 f) = f 4
        \<and> calls (events (retryWithBackoff invoke 5 1000 f)) = 5)
   \<and> (n < 5 \<and> (\<forall>k<n. transient_failure (f k)) \<and> f n = Inl e \<and> \<not> isRetryable e \<longrightarrow>
        outcome (retryWithBackoff invoke 5 1000 f) = Inl e
        \<and> calls (events (retryWithBackoff invoke 5 1000 f)) = n + 1
        \<and> delays (events (retryWithBackoff invoke 5 1000 f)) = map (\<lambda>k. 1000 * 2 ^ k) [0..<n])"
proof (intro conjI impI)
  show "calls (events (retryWithBackoff invoke 5 1000 f)) \<le> 5"
    by (rule retry_calls_le_5)
next
  assume a: "(\<forall>k<4. transient_failure (f k)) \<and> f 4 = Inr v"
  then have r: "outcome (retryWithBackoff invoke 5 1000 f) = Inr v \<and>
         calls (events (retryWithBackoff invoke 5 1000 f)) = 5 \<and>
         delays (events (retryWithBackoff invoke 5 1000 f)) = [1000, 2000, 4000, 8000]"
    by (intro retry_4_then_success) simp_all
  from r show "outcome (retryWithBackoff invoke 5 1000 f) = Inr v" by simp
  from r show "delays (events (retryWithBackoff invoke 5 1000 f)) = [1000, 2000, 4000, 8000]"
    by simp
  from r show "sum_list (delays (events (retryWithBackoff invoke 5 1000 f))) = 15000" by simp
next
  assume a: "\<forall>k<5. transient_failure (f k)"
  from retry_5_failures [OF a]
  show "outcome (retryWithBackoff invoke 5 1000 f) = f 4"
    and "calls (events (retryWithBackoff invoke 5 1000 f)) = 5" by simp_all
next
  assume a: "n < 5 \<and> (\<forall>k<n. transient_failure (f k)) \<and> f n = Inl e \<and> \<not> isRetryable e"
  then have r: "outcome (retryWithBackoff invoke 5 1000 f) = Inl e \<and>
         calls (events (retryWithBackoff invoke 5 1000 f)) = n + 1 \<and>
         delays (events (retryWithBackoff invoke 5 1000 f)) = map (\<lambda>k. 1000 * 2 ^ k) [0..<n]"
    by (intro retry_fatal) simp_all
  from r show "outcome (retryWithBackoff invoke 5 1000 f) = Inl e" by simp
  from r show "calls (events (retryWithBackoff invoke 5 1000 f)) = n + 1" by simp
  from r show "delays (events (retryWithBackoff invoke 5 1000 f)) = map (\<lambda>k. 1000 * 2 ^ k) [0..<n]"
    by simp
qed

theorem retryWithBackoff_policy_witness:
  "(transient_failure (script [Inl rate_limited, Inl rate_limited, Inl connection_reset, Inl rate_limited] (Inr (7::nat)) 3)
    \<and> outcome (retryWithBackoff invoke 5 1000
        (script [Inl rate_limited, Inl rate_limited, Inl connection_reset, Inl rate_limited] (Inr (7::nat)))) = Inr 7
    \<and> sum_list (delays (events (retryWithBackoff invoke 5 1000
        (script [Inl rate_limited, Inl rate_limited, Inl connection_reset, Inl rate_limited] (Inr (7::nat)))))) = 15000)
   \<and> (transient_failure (script [] (Inl rate_limited :: js_error + nat) 4)
    \<and> outcome (retryWithBackoff invoke 5 1000 (script [] (Inl rate_limited :: js_error + nat))) = Inl rate_limited
    \<and> calls (events (retryWithBackoff invoke 5 1000 (script [] (Inl rate_limited :: js_error + nat)))) = 5)
   \<and> (\<not> isRetryable (new_Error ''Bad Request'')
    \<and> outcome (retryWithBackoff invoke 5 1000
        (script [Inl connection_reset] (Inl (new_Error ''Bad Request'') :: js_error + nat))) = Inl (new_Error ''Bad Request'')
    \<and> calls (events (retryWithBackoff invoke 5 1000
        (script [Inl connection_reset] (Inl (new_Error ''Bad Request'') :: js_error + nat)))) = 2
    \<and> delays (events (retryWithBackoff invoke 5 1000
        (script [Inl connection_reset] (Inl (new_Error ''Bad Request'') :: js_error + nat)))) = [1000])"
  using
    retryWithBackoff_policy [of "script [Inl rate_limited, Inl rate_limited, Inl connection_reset, Inl rate_limited] (Inr (7::nat))" 7 0 Undefined]
    retryWithBackoff_policy [of "script [] (Inl rate_limited :: js_error + nat)" 0 0 Undefined]
    retryWithBackoff_policy [of "script [Inl connection_reset] (Inl (new_Error ''Bad Request'') :: js_error + nat)" 0 1 "new_Error ''Bad Request''"]
  by (simp add: eval_nat_numeral All_less_Suc)

section \<open>The status monitor\<close>

lemma outcome_simp [simp]: "outcome (r, evs, s) = r"
  by (simp add: outcome_def)

lemma events_simp [simp]: "events (r, evs, s) = evs"
  by (simp add: events_def)

lemma after_simp [simp]: "after (r, evs, s) = s"
  by (simp add: after_def)

lemma polls_simps [simp]:
  "polls [] = 0"
  "polls (xs @ ys) = polls xs + polls ys"
  "polls (StatusPoll a b c d # evs) = Suc (polls evs)"
  "polls (Sleep ms # evs) = polls evs"
  "polls (StatusUpdate st # evs) = polls evs"
  "polls (FetchStatus a b c d # evs) = polls evs"
  by (simp_all add: polls_def)

lemma updates_simps [simp]:
  "updates [] = []"
  "updates (xs @ ys) = updates xs @ updates ys"
  "updates (StatusPoll a b c d # evs) = updates evs"
  "updates (Sleep ms # evs) = updates evs"
  "updates (StatusUpdate st # evs) = st # updates evs"
  "updates (FetchStatus a b c d # evs) = updates evs"
  by (simp_all add: updates_def)

lemma requests_simps [simp]:
  "requests [] = 0" "requests (xs @ ys) = requests xs + requests ys"
  "requests (FetchStatus a b c d # evs) = Suc (requests evs)"
  "requests (FetchRoute p # evs) = Suc (requests evs)"
  "requests (Sleep ms # evs) = requests evs"
  "requests (StatusPoll a b c d # evs) = requests evs"
  "requests (StatusUpdate st # evs) = requests evs"
  by (simp_all add: requests_def)

lemma quotes_simps [simp]:
  "quotes [] = []" "quotes (xs @ ys) = quotes xs @ quotes ys"
  "quotes (FetchRoute p # evs) = p # quotes evs"
  "quotes (FnCall # evs) = quotes evs"
  "quotes (Sleep ms # evs) = quotes evs"
  "quotes (FetchStatus h q f t # evs) = quotes evs"
  "quotes (StatusPoll h q f t # evs) = quotes evs"
  "quotes (StatusUpdate ts # evs) = quotes evs"
  "quotes (GetSigner # evs) = quotes evs"
  "quotes (AllowanceRead tk ow sp r # evs) = quotes evs"
  "quotes (Approve tk sp am out # evs) = quotes evs"
  "quotes (SendTransaction tx sr # evs) = quotes evs"
  "quotes (WaitMined h wr # evs) = quotes evs"
  "quotes (SetState st # evs) = quotes evs"
  by (simp_all add: quotes_def)

text \<open>
  Induction along the loop of \<^verbatim>\<open>retryWithBackoff\<close>: the loop is over, \<^verbatim>\<open>fn\<close> returns,
  \<^verbatim>\<open>fn\<close> throws what is thrown on, or \<^verbatim>\<open>fn\<close> throws and is tried again after a delay.
\<close>

lemma retry_loop_induct [case_names over returned thrown again]:
  assumes over: "\<And>a le s. \<not> a < m \<Longrightarrow> P a le s (Inl le, [], s)"
    and returned: "\<And>a le s v evs s'. a < m \<Longrightarrow> fn s = (Inr v, evs, s') \<Longrightarrow>
        P a le s (Inr v, evs, s')"
    and thrown: "\<And>a le s e evs s'. a < m \<Longrightarrow> fn s = (Inl e, evs, s') \<Longrightarrow>
        \<not> isRetryable e \<or> a = m - 1 \<Longrightarrow> P a le s (Inl e, evs, s')"
    and again: "\<And>a le s e evs s' r evs' s''. a < m \<Longrightarrow> fn s = (Inl e, evs, s') \<Longrightarrow>
        isRetryable e \<Longrightarrow> a \<noteq> m - 1 \<Longrightarrow> P (a + 1) e s' (r, evs', s'') \<Longrightarrow>
        P a le s (r, evs @ Sleep (d * 2 ^ nat a) # evs', s'')"
  shows "P a le s (retry_loop fn m d a le s)"
proof (induction "nat (m - a)" arbitrary: a le s)
  case 0
  then have "\<not> a < m" by simp
  then show ?case by (simp add: retry_loop.simps over)
next
  case (Suc n)
  then have a: "a < m" and n: "n = nat (m - (a + 1))" by simp_all
  obtain r evs s' where f: "fn s = (r, evs, s')" by (cases "fn s")
  show ?case
  proof (cases r)
    case (Inr v)
    with a f returned [of a s v evs s' le] show ?thesis by (simp add: retry_loop.simps)
  next
    case (Inl e)
    show ?thesis
    proof (cases "\<not> isRetryable e \<or> a = m - 1")
      case True
      with a f Inl thrown [of a s e evs s' le] show ?thesis by (simp add: retry_loop.simps)
    next
      case False
      obtain r2 evs2 s2 where rec: "retry_loop fn m d (a + 1) e s' = (r2, evs2, s2)"
        by (cases "retry_loop fn m d (a + 1) e s'")
      from Suc.hyps(1) [OF n, of e s'] rec have "P (a + 1) e s' (r2, evs2, s2)" by simp
      with a f Inl False again [of a s e evs s' r2 evs2 s2 le] rec show ?thesis
        by (simp add: retry_loop.simps [of fn m d a])
    qed
  qed
qed

text \<open>The events of a retried function are its own and the delays between.\<close>

lemma retry_loop_events:
  assumes "\<And>s. list_all Q (events (fn s))" and "\<And>ms. Q (Sleep ms)"
  shows "list_all Q (events (retry_loop fn m d a le s))"
proof (rule retry_loop_induct [where P = "\<lambda>a le s res. list_all Q (events res)"])
  fix a le s
  show "list_all Q (events (Inl le, [], s))" by simp
next
  fix s v evs s'
  assume "fn s = (Inr v, evs, s')"
  with assms(1) [of s] show "list_all Q (events (Inr v, evs, s'))" by simp
next
  fix s e evs s'
  assume "fn s = (Inl e, evs, s')"
  with assms(1) [of s] show "list_all Q (events (Inl e, evs, s'))" by simp
next
  fix a s e evs s' r evs' s''
  assume "fn s = (Inl e, evs, s')" and "list_all Q (events (r, evs', s''))"
  with assms(1) [of s] assms(2)
  show "list_all Q (events (r, evs @ Sleep (d * 2 ^ nat a) # evs', s''))" by simp
qed

text \<open>A retried function leaves alone what each of its invocations leaves alone.\<close>

lemma retry_loop_preserves:
  assumes "\<And>s. g (after (fn s)) = g s"
  shows "g (after (retry_loop fn m d a le s)) = g s"
proof (rule retry_loop_induct [where P = "\<lambda>a le s res. g (after res) = g s"])
  fix a le s
  show "g (after (Inl le, [], s)) = g s" by simp
next
  fix s v evs s'
  assume "fn s = (Inr v, evs, s')"
  with assms [of s] show "g (after (Inr v, evs, s')) = g s" by simp
next
  fix s e evs s'
  assume "fn s = (Inl e, evs, s')"
  with assms [of s] show "g (after (Inl e, evs, s')) = g s" by simp
next
  fix a s e evs s' r evs' s''
  assume "fn s = (Inl e, evs, s')" and "g (after (r, evs', s'')) = g s'"
  with assms [of s]
  show "g (after (r, evs @ Sleep (d * 2 ^ nat a) # evs', s'')) = g s" by simp
qed

text \<open>A retried function that makes at most one request makes at most \<open>maxRetries\<close> of them.\<close>

lemma retry_loop_requests:
  assumes "\<And>s. requests (events (fn s)) \<le> 1"
  shows "requests (events (retry_loop fn m d a le s)) \<le> nat (m - a)"
proof (rule retry_loop_induct [where P = "\<lambda>a le s res. requests (events res) \<le> nat (m - a)"])
  fix a le s
  show "requests (events (Inl le, [], s)) \<le> nat (m - a)" by simp
next
  fix a s v evs s'
  assume "a < m" and "fn s = (Inr v, evs, s')"
  with assms [of s] show "requests (events (Inr v, evs, s')) \<le> nat (m - a)" by simp
next
  fix a s e evs s'
  assume "a < m" and "fn s = (Inl e, evs, s')"
  with assms [of s] show "requests (events (Inl e, evs, s')) \<le> nat (m - a)" by simp
next
  fix a s e evs s' r evs' s''
  assume "a < m" and "fn s = (Inl e, evs, s')"
    and "requests (events (r, evs', s'')) \<le> nat (m - (a + 1))"
  with assms [of s]
  show "requests (events (r, evs @ Sleep (d * 2 ^ nat a) # evs', s'')) \<le> nat (m - a)" by simp
qed

text \<open>One turn of the loop, for the outcome and for the first events.\<close>

lemma retry_loop_outcome:
  "a < m \<Longrightarrow>
     outcome (retry_loop fn m d a le s) =
       (case outcome (fn s) of
          Inr v \<Rightarrow> Inr v
        | Inl e \<Rightarrow>
            if \<not> isRetryable e \<or> a = m - 1 then Inl e
            else outcome (retry_loop fn m d (a + 1) e (after (fn s))))"
  by (cases "fn s"; cases "outcome (fn s)";
      cases "retry_loop fn m d (a + 1) (projl (outcome (fn s))) (after (fn s))")
     (auto simp: retry_loop.simps [of fn m d a])

lemma retry_loop_first:
  "a < m \<Longrightarrow> \<exists>evs. events (retry_loop fn m d a le s) = events (fn s) @ evs"
  by (cases "fn s"; cases "outcome (fn s)";
      cases "retry_loop fn m d (a + 1) (projl (outcome (fn s))) (after (fn s))")
     (auto simp: retry_loop.simps [of fn m d a])

text \<open>A retried function asks for the quotes its invocations ask for.\<close>

lemma retry_loop_quotes:
  assumes "\<And>s. set (quotes (events (fn s))) \<subseteq> Q"
  shows "set (quotes (events (retry_loop fn m d a le s))) \<subseteq> Q"
proof (rule retry_loop_induct [where P = "\<lambda>a le s res. set (quotes (events res)) \<subseteq> Q"])
  fix a le s
  show "set (quotes (events (Inl le, [], s))) \<subseteq> Q" by simp
next
  fix s v evs s'
  assume "fn s = (Inr v, evs, s')"
  with assms [of s] show "set (quotes (events (Inr v, evs, s'))) \<subseteq> Q" by simp
next
  fix s e evs s'
  assume "fn s = (Inl e, evs, s')"
  with assms [of s] show "set (quotes (events (Inl e, evs, s'))) \<subseteq> Q" by simp
next
  fix a s e evs s' r evs' s''
  assume "fn s = (Inl e, evs, s')" and "set (quotes (events (r, evs', s''))) \<subseteq> Q"
  with assms [of s]
  show "set (quotes (events (r, evs @ Sleep (d * 2 ^ nat a) # evs', s''))) \<subseteq> Q" by simp
qed

lemma request_or_delay_quiet:
  "list_all request_or_delay evs \<Longrightarrow>
     polls evs = 0 \<and> updates evs = [] \<and> states evs = [] \<and> approvals evs = [] \<and> sent evs = []"
  by (induction evs)
     (auto simp: request_or_delay_def polls_def updates_def states_def approvals_def sent_def
           split: event.splits)

lemma status_attempt_events:
  "list_all request_or_delay (events (status_attempt h q f t w))"
  by (simp add: status_attempt_def Let_def request_or_delay_def split: fetched.splits body.splits)

lemma getTransactionStatus_events:
  "\<exists>evs. events (getTransactionStatus h q f t w) = StatusPoll h q f t # evs
      \<and> list_all request_or_delay evs"
proof -
  have "list_all request_or_delay (events (retryWithBackoff (status_attempt h q f t) 5 1000 w))"
    unfolding retryWithBackoff_def
    by (rule retry_loop_events) (simp_all add: status_attempt_events request_or_delay_def)
  then show ?thesis
    by (cases "retryWithBackoff (status_attempt h q f t) 5 1000 w")
       (simp add: getTransactionStatus_def)
qed

lemma getTransactionStatus_polls [simp]: "polls (events (getTransactionStatus h q f t w)) = 1"
  using getTransactionStatus_events [of h q f t w] by (auto dest: request_or_delay_quiet)

lemma getTransactionStatus_updates [simp]: "updates (events (getTransactionStatus h q f t w)) = []"
  using getTransactionStatus_events [of h q f t w] by (auto dest: request_or_delay_quiet)

lemma poll_once_outcome:
  "outcome (poll_once h q f t cb ival w) =
     (case outcome (getTransactionStatus h q f t w) of
        Inl e \<Rightarrow> Inr Continue
      | Inr st \<Rightarrow> if returns_normally cb st \<and> terminal st then Inr (Return st) else Inr Continue)"
  by (cases "getTransactionStatus h q f t w")
     (simp add: poll_once_def io_catch_def io_bind_def notify_def sleep_def io_return_def
        returns_normally_def split: sum.splits option.splits)

lemma poll_once_events:
  "events (poll_once h q f t cb ival w) =
     events (getTransactionStatus h q f t w)
     @ notified cb (outcome (getTransactionStatus h q f t w))
     @ (case outcome (poll_once h q f t cb ival w) of Inr (Return st) \<Rightarrow> [] | _ \<Rightarrow> [Sleep ival])"
  by (cases "getTransactionStatus h q f t w")
     (simp add: poll_once_def io_catch_def io_bind_def notify_def sleep_def io_return_def
        notified_def split: sum.splits option.splits)

lemma poll_once_after:
  "after (poll_once h q f t cb ival w) = after (getTransactionStatus h q f t w)"
  by (cases "getTransactionStatus h q f t w")
     (simp add: poll_once_def io_catch_def io_bind_def notify_def sleep_def io_return_def
        split: sum.splits option.splits)

lemma monitor_loop_done:
  "\<not> a < maxAttempts \<Longrightarrow> monitor_loop h q f t cb ival a w = (Inl monitoring_timeout, [], w)"
  by (simp add: monitor_loop.simps)

lemma monitor_loop_return:
  "a < maxAttempts \<Longrightarrow> outcome (poll_once h q f t cb ival w) = Inr (Return st) \<Longrightarrow>
   monitor_loop h q f t cb ival a w =
     (Inr st, events (poll_once h q f t cb ival w), after (poll_once h q f t cb ival w))"
  by (cases "poll_once h q f t cb ival w") (simp add: monitor_loop.simps)

lemma monitor_loop_continue:
  "a < maxAttempts \<Longrightarrow> outcome (poll_once h q f t cb ival w) = Inr Continue \<Longrightarrow>
   monitor_loop h q f t cb ival a w =
     (outcome (monitor_loop h q f t cb ival (Suc a) (after (poll_once h q f t cb ival w))),
      events (poll_once h q f t cb ival w)
      @ events (monitor_loop h q f t cb ival (Suc a) (after (poll_once h q f t cb ival w))),
      after (monitor_loop h q f t cb ival (Suc a) (after (poll_once h q f t cb ival w))))"
  by (cases "poll_once h q f t cb ival w",
      cases "monitor_loop h q f t cb ival (Suc a) (after (poll_once h q f t cb ival w))")
     (simp add: monitor_loop.simps [of h q f t cb ival a])

lemma poll_once_outcome_cases:
  obtains (return) st where "outcome (poll_once h q f t cb ival w) = Inr (Return st)"
      "outcome (getTransactionStatus h q f t w) = Inr st" "terminal st" "returns_normally cb st"
  | (continue) "outcome (poll_once h q f t cb ival w) = Inr Continue"
      "not_terminal (outcome (getTransactionStatus h q f t w))
       \<or> (\<exists>st. outcome (getTransactionStatus h q f t w) = Inr st \<and> \<not> returns_normally cb st)"
proof (cases "outcome (getTransactionStatus h q f t w)")
  case (Inl e)
  then show ?thesis using continue by (simp add: poll_once_outcome not_terminal_def)
next
  case (Inr st)
  show ?thesis
  proof (cases "returns_normally cb st \<and> terminal st")
    case True
    with Inr show ?thesis using return [of st] by (simp add: poll_once_outcome)
  next
    case False
    with Inr show ?thesis using continue by (auto simp: poll_once_outcome not_terminal_def)
  qed
qed

lemma polls_notified [simp]: "polls (notified cb r) = 0"
  by (simp add: notified_def polls_def split: option.splits sum.splits)

lemma updates_notified_None [simp]: "updates (notified None r) = []"
  by (simp add: notified_def)

lemma updates_notified_Some [simp]: "updates (notified (Some c) r) = successes [r]"
  by (simp add: notified_def successes_def split: sum.splits)

lemma monitor_loop_polls:
  "polls (events (monitor_loop h q f t cb ival a w)) \<le> maxAttempts - a"
proof (induction "maxAttempts - a" arbitrary: a w)
  case 0
  then show ?case by (simp add: monitor_loop_done)
next
  case (Suc n)
  then have a: "a < maxAttempts" and n: "n = maxAttempts - Suc a" by simp_all
  show ?case
  proof (cases rule: poll_once_outcome_cases [of h q f t cb ival w])
    case (return st)
    with a show ?thesis
      by (simp add: monitor_loop_return poll_once_events)
  next
    case continue
    from Suc.hyps(1) [OF n, of "after (poll_once h q f t cb ival w)"] a continue(1) show ?thesis
      by (simp add: monitor_loop_continue poll_once_events)
  qed
qed

lemma monitor_loop_outcome:
  "case outcome (monitor_loop h q f t cb ival a w) of
     Inl e \<Rightarrow> e = monitoring_timeout
   | Inr st \<Rightarrow> terminal st"
proof (induction "maxAttempts - a" arbitrary: a w)
  case 0
  then show ?case by (simp add: monitor_loop_done)
next
  case (Suc n)
  then have a: "a < maxAttempts" and n: "n = maxAttempts - Suc a" by simp_all
  show ?case
  proof (cases rule: poll_once_outcome_cases [of h q f t cb ival w])
    case (return st)
    with a show ?thesis
      by (simp add: monitor_loop_return)
  next
    case continue
    from Suc.hyps(1) [OF n, of "after (poll_once h q f t cb ival w)"] a continue(1) show ?thesis
      by (simp add: monitor_loop_continue)
  qed
qed

lemma successes_simps [simp]:
  "successes [] = []"
  "successes (Inl e # rs) = successes rs"
  "successes (Inr x # rs) = x # successes rs"
  "successes (rs @ rs') = successes rs @ successes rs'"
  by (simp_all add: successes_def)

lemma monitor_loop_updates:
  "updates (events (monitor_loop h q f t (Some c) ival a w)) =
     successes (poll_outcomes h q f t (polls (events (monitor_loop h q f t (Some c) ival a w))) w)"
proof (induction "maxAttempts - a" arbitrary: a w)
  case 0
  then show ?case by (simp add: monitor_loop_done)
next
  case (Suc n)
  then have a: "a < maxAttempts" and n: "n = maxAttempts - Suc a" by simp_all
  show ?case
  proof (cases rule: poll_once_outcome_cases [of h q f t "Some c" ival w])
    case (return st)
    with a show ?thesis
      by (simp add: monitor_loop_return poll_once_events)
  next
    case continue
    from Suc.hyps(1) [OF n, of "after (poll_once h q f t (Some c) ival w)"] a continue(1)
    show ?thesis
      by (cases "outcome (getTransactionStatus h q f t w)")
         (simp_all add: monitor_loop_continue poll_once_events poll_once_after)
  qed
qed

lemma monitor_loop_no_callback:
  "updates (events (monitor_loop h q f t None ival a w)) = []"
proof (induction "maxAttempts - a" arbitrary: a w)
  case 0
  then show ?case by (simp add: monitor_loop_done)
next
  case (Suc n)
  then have a: "a < maxAttempts" and n: "n = maxAttempts - Suc a" by simp_all
  show ?case
  proof (cases rule: poll_once_outcome_cases [of h q f t None ival w])
    case (return st)
    with a show ?thesis
      by (simp add: monitor_loop_return poll_once_events)
  next
    case continue
    from Suc.hyps(1) [OF n, of "after (poll_once h q f t None ival w)"] a continue(1)
    show ?thesis
      by (simp add: monitor_loop_continue poll_once_events)
  qed
qed

lemma monitor_loop_timeout:
  "list_all not_terminal (poll_outcomes h q f t (maxAttempts - a) w) \<Longrightarrow>
     outcome (monitor_loop h q f t cb ival a w) = Inl monitoring_timeout
     \<and> polls (events (monitor_loop h q f t cb ival a w)) = maxAttempts - a"
proof (induction "maxAttempts - a" arbitrary: a w)
  case 0
  then show ?case by (simp add: monitor_loop_done)
next
  case (Suc n)
  then have a: "a < maxAttempts" and n: "n = maxAttempts - Suc a" by simp_all
  from Suc.hyps(2) [symmetric] Suc.prems
  have nt: "not_terminal (outcome (getTransactionStatus h q f t w))"
    and rest: "list_all not_terminal
        (poll_outcomes h q f t (maxAttempts - Suc a) (after (getTransactionStatus h q f t w)))"
    using n by simp_all
  show ?case
  proof (cases rule: poll_once_outcome_cases [of h q f t cb ival w])
    case (return st)
    with nt show ?thesis by (simp add: not_terminal_def)
  next
    case continue
    from Suc.hyps(1) [OF n, of "after (poll_once h q f t cb ival w)"] rest a continue(1) n
    show ?thesis
      by (simp add: monitor_loop_continue poll_once_events poll_once_after)
  qed
qed

lemma monitorTransaction_unfold:
  "monitorTransaction h q f t cb ival w =
     (outcome (monitor_loop h q f t cb ival 0 w),
      Sleep 3000 # events (monitor_loop h q f t cb ival 0 w),
      after (monitor_loop h q f t cb ival 0 w))"
  by (cases "monitor_loop h q f t cb ival 0 w")
     (simp add: monitorTransaction_def io_bind_def sleep_def)

text \<open>
  C5. When none of the first 60 polls returns a terminal status (each fails, or returns a
  status that is not terminal), \<^verbatim>\<open>monitorTransaction\<close> throws the timeout error, after
  exactly 60 polls. The timeout is a thrown error; a failed transfer is a returned status
  whose \<^verbatim>\<open>squidTransactionStatus\<close> is \<^verbatim>\<open>failed\<close>.
\<close>

theorem monitorTransaction_timeout:
  assumes "list_all not_terminal (poll_outcomes h q f t maxAttempts w)"
  shows "outcome (monitorTransaction h q f t cb ival w) = Inl monitoring_timeout
     \<and> polls (events (monitorTransaction h q f t cb ival w)) = 60"
  using monitor_loop_timeout [of h q f t 0 w cb ival] assms
  by (simp add: monitorTransaction_unfold maxAttempts_def)

text \<open>
  C10. \<^verbatim>\<open>monitorTransaction\<close> is total and polls at most 60 times, whatever the polls
  give; it returns a terminal status or throws the timeout error; and when every poll
  fails, each failed poll uses up one attempt, so that the timeout error is thrown after
  exactly 60 polls.
\<close>

theorem monitorTransaction_bounded:
  "polls (events (monitorTransaction h q f t cb ival w)) \<le> 60
   \<and> (case outcome (monitorTransaction h q f t cb ival w) of
        Inl e \<Rightarrow> e = monitoring_timeout
      | Inr st \<Rightarrow> terminal st)
   \<and> (list_all isl (poll_outcomes h q f t maxAttempts w) \<longrightarrow>
        outcome (monitorTransaction h q f t cb ival w) = Inl monitoring_timeout
        \<and> polls (events (monitorTransaction h q f t cb ival w)) = 60)"
proof (intro conjI impI)
  show "polls (events (monitorTransaction h q f t cb ival w)) \<le> 60"
    using monitor_loop_polls [of h q f t cb ival 0 w]
    by (simp add: monitorTransaction_unfold maxAttempts_def)
  show "case outcome (monitorTransaction h q f t cb ival w) of
        Inl e \<Rightarrow> e = monitoring_timeout
      | Inr st \<Rightarrow> terminal st"
    using monitor_loop_outcome [of h q f t cb ival 0 w]
    by (simp add: monitorTransaction_unfold)
next
  assume "list_all isl (poll_outcomes h q f t maxAttempts w)"
  then have nt: "list_all not_terminal (poll_outcomes h q f t (maxAttempts - 0) w)"
    by (auto simp: list_all_iff not_terminal_def isl_def)
  from monitor_loop_timeout [OF nt, of cb ival]
  show "outcome (monitorTransaction h q f t cb ival w) = Inl monitoring_timeout"
    and "polls (events (monitorTransaction h q f t cb ival w)) = 60"
    by (simp_all add: monitorTransaction_unfold maxAttempts_def)
qed

lemma monitor_three_polls:
  assumes p: "poll_outcomes h q f t 3 w = [Inr p1, Inr p2, Inr s]"
    and nt: "\<not> terminal p1" "\<not> terminal p2" and s: "squidTransactionStatus s = ''success''"
    and cb: "returns_normally cb p1" "returns_normally cb p2" "returns_normally cb s"
  shows "outcome (monitorTransaction h q f t cb ival w) = Inr s
     \<and> polls (events (monitorTransaction h q f t cb ival w)) = 3
     \<and> updates (events (monitorTransaction h q f t cb ival w)) =
         (case cb of None \<Rightarrow> [] | Some c \<Rightarrow> [p1, p2, s])"
proof -
  let ?w1 = "after (getTransactionStatus h q f t w)"
  let ?w2 = "after (getTransactionStatus h q f t ?w1)"
  from p have g1: "outcome (getTransactionStatus h q f t w) = Inr p1"
    and g2: "outcome (getTransactionStatus h q f t ?w1) = Inr p2"
    and g3: "outcome (getTransactionStatus h q f t ?w2) = Inr s"
    by (simp_all add: eval_nat_numeral)
  have ts: "terminal s" using s by (simp add: terminal_def)
  have o1: "outcome (poll_once h q f t cb ival w) = Inr Continue"
    using g1 nt(1) by (simp add: poll_once_outcome)
  have o2: "outcome (poll_once h q f t cb ival ?w1) = Inr Continue"
    using g2 nt(2) by (simp add: poll_once_outcome)
  have o3: "outcome (poll_once h q f t cb ival ?w2) = Inr (Return s)"
    using g3 ts cb(3) by (simp add: poll_once_outcome)
  have l3: "monitor_loop h q f t cb ival 2 ?w2 =
     (Inr s, events (poll_once h q f t cb ival ?w2), after (poll_once h q f t cb ival ?w2))"
    using o3 by (intro monitor_loop_return) (simp_all add: maxAttempts_def)
  have l2: "monitor_loop h q f t cb ival 1 ?w1 =
     (Inr s, events (poll_once h q f t cb ival ?w1) @ events (poll_once h q f t cb ival ?w2),
      after (poll_once h q f t cb ival ?w2))"
    using monitor_loop_continue [of 1 h q f t cb ival ?w1] o2 l3
    by (simp add: maxAttempts_def poll_once_after eval_nat_numeral)
  have l1: "monitor_loop h q f t cb ival 0 w =
     (Inr s, events (poll_once h q f t cb ival w) @ events (poll_once h q f t cb ival ?w1)
        @ events (poll_once h q f t cb ival ?w2),
      after (poll_once h q f t cb ival ?w2))"
    using monitor_loop_continue [of 0 h q f t cb ival w] o1 l2
    by (simp add: maxAttempts_def poll_once_after)
  show ?thesis
    by (simp add: monitorTransaction_unfold l1 poll_once_events o1 o2 o3 g1 g2 g3
          split: option.splits)
qed

lemma rest_const [simp]: "rest (\<lambda>k. c) = (\<lambda>k. c)"
  by (simp add: rest_def)

lemma isRetryable_new_Error [simp]: "\<not> isRetryable (new_Error m)"
  by (simp add: isRetryable_def new_Error_def)

lemma getTransactionStatus_pending_world:
  "getTransactionStatus h q f t pending_world =
     (Inr (not_indexed h), [StatusPoll h q f t, FetchStatus h q f t], pending_world)"
  by (simp add: getTransactionStatus_def retryWithBackoff_def retry_loop.simps status_attempt_def
        pending_world_def not_indexed_def)

lemma poll_outcomes_pending_world:
  "poll_outcomes h q f t n pending_world = replicate n (Inr (not_indexed h))"
  by (induction n) (simp_all add: getTransactionStatus_pending_world)

lemma not_terminal_not_indexed [simp]: "not_terminal (Inr (not_indexed h))"
  by (simp add: not_terminal_def terminal_def not_indexed_def)

theorem monitorTransaction_timeout_witness:
  "list_all not_terminal (poll_outcomes ''0xb1'' ''quote-1'' ''8453'' ''137'' maxAttempts pending_world)
   \<and> outcome (monitorTransaction ''0xb1'' ''quote-1'' ''8453'' ''137'' None 5000 pending_world)
       = Inl monitoring_timeout
   \<and> polls (events (monitorTransaction ''0xb1'' ''quote-1'' ''8453'' ''137'' None 5000 pending_world)) = 60"
  using monitorTransaction_timeout [of "''0xb1''" "''quote-1''" "''8453''" "''137''" pending_world None 5000]
  by (simp add: poll_outcomes_pending_world list_all_iff)

lemma getTransactionStatus_offline_world:
  "getTransactionStatus h q f t offline_world =
     (Inl (new_Error ''Failed to fetch''), [StatusPoll h q f t, FetchStatus h q f t], offline_world)"
  by (simp add: getTransactionStatus_def retryWithBackoff_def retry_loop.simps status_attempt_def
        offline_world_def)

lemma poll_outcomes_offline_world:
  "poll_outcomes h q f t n offline_world = replicate n (Inl (new_Error ''Failed to fetch''))"
  by (induction n) (simp_all add: getTransactionStatus_offline_world)

theorem monitorTransaction_bounded_witness:
  "list_all isl (poll_outcomes ''0xb1'' ''quote-1'' ''8453'' ''137'' maxAttempts offline_world)
   \<and> outcome (monitorTransaction ''0xb1'' ''quote-1'' ''8453'' ''137'' None 5000 offline_world)
       = Inl monitoring_timeout
   \<and> polls (events (monitorTransaction ''0xb1'' ''quote-1'' ''8453'' ''137'' None 5000 offline_world)) = 60"
  using monitorTransaction_bounded [of "''0xb1''" "''quote-1''" "''8453''" "''137''" None 5000 offline_world]
  by (simp add: poll_outcomes_offline_world list_all_iff)

text \<open>
  C8. The statuses handed to a supplied \<^verbatim>\<open>onStatusUpdate\<close> are exactly the statuses of
  the polls that succeeded, terminal or not, in the order of the polls (and each is handed
  over before the next poll starts, see \<open>poll_once_events\<close>); without a callback nothing
  is reported. When the first three polls give a status that is not terminal, another
  one, and then \<^verbatim>\<open>success\<close>, and the callback returns on each, the monitor returns the
  third status and has called the callback three times, with these statuses in order.
\<close>

theorem monitorTransaction_onUpdate:
  "updates (events (monitorTransaction h q f t (Some c) ival w)) =
     successes (poll_outcomes h q f t
        (polls (events (monitorTransaction h q f t (Some c) ival w))) w)
   \<and> updates (events (monitorTransaction h q f t None ival w)) = []
   \<and> (poll_outcomes h q f t 3 w = [Inr p1, Inr p2, Inr s] \<and> \<not> terminal p1 \<and> \<not> terminal p2
        \<and> squidTransactionStatus s = ''success'' \<and> c p1 = None \<and> c p2 = None \<and> c s = None \<longrightarrow>
      outcome (monitorTransaction h q f t (Some c) ival w) = Inr s
      \<and> updates (events (monitorTransaction h q f t (Some c) ival w)) = [p1, p2, s]
      \<and> length (updates (events (monitorTransaction h q f t (Some c) ival w))) = 3)"
proof (intro conjI impI)
  show "updates (events (monitorTransaction h q f t (Some c) ival w)) =
     successes (poll_outcomes h q f t
        (polls (events (monitorTransaction h q f t (Some c) ival w))) w)"
    using monitor_loop_updates [of h q f t c ival 0 w] by (simp add: monitorTransaction_unfold)
  show "updates (events (monitorTransaction h q f t None ival w)) = []"
    by (simp add: monitorTransaction_unfold monitor_loop_no_callback)
next
  assume a: "poll_outcomes h q f t 3 w = [Inr p1, Inr p2, Inr s] \<and> \<not> terminal p1 \<and> \<not> terminal p2
        \<and> squidTransactionStatus s = ''success'' \<and> c p1 = None \<and> c p2 = None \<and> c s = None"
  then have r: "outcome (monitorTransaction h q f t (Some c) ival w) = Inr s
     \<and> polls (events (monitorTransaction h q f t (Some c) ival w)) = 3
     \<and> updates (events (monitorTransaction h q f t (Some c) ival w)) =
         (case Some c of None \<Rightarrow> [] | Some c \<Rightarrow> [p1, p2, s])"
    by (intro monitor_three_polls) (simp_all add: returns_normally_def)
  from r show "outcome (monitorTransaction h q f t (Some c) ival w) = Inr s" by simp
  from r show "updates (events (monitorTransaction h q f t (Some c) ival w)) = [p1, p2, s]" by simp
  from r show "length (updates (events (monitorTransaction h q f t (Some c) ival w))) = 3" by simp
qed

lemma poll_outcomes_good_world:
  "poll_outcomes ''0xb1'' ''quote-1'' ''8453'' ''137'' 3 good_world =
     [Inr (not_indexed ''0xb1''), Inr (transfer_status ''ongoing''), Inr (transfer_status ''success'')]"
  by (simp add: eval_nat_numeral getTransactionStatus_def retryWithBackoff_def retry_loop.simps
        status_attempt_def good_world_def not_indexed_def res_ok_def)

theorem monitorTransaction_onUpdate_witness:
  "poll_outcomes ''0xb1'' ''quote-1'' ''8453'' ''137'' 3 good_world =
     [Inr (not_indexed ''0xb1''), Inr (transfer_status ''ongoing''), Inr (transfer_status ''success'')]
   \<and> outcome (monitorTransaction ''0xb1'' ''quote-1'' ''8453'' ''137'' (Some (\<lambda>st. None)) 5000 good_world)
       = Inr (transfer_status ''success'')
   \<and> updates (events (monitorTransaction ''0xb1'' ''quote-1'' ''8453'' ''137'' (Some (\<lambda>st. None)) 5000 good_world))
       = [not_indexed ''0xb1'', transfer_status ''ongoing'', transfer_status ''success'']"
  using monitorTransaction_onUpdate [of "''0xb1''" "''quote-1''" "''8453''" "''137''" "\<lambda>st. None" 5000
      good_world "not_indexed ''0xb1''" "transfer_status ''ongoing''" "transfer_status ''success''",
      THEN conjunct2, THEN conjunct2]
  by (simp add: poll_outcomes_good_world terminal_def not_indexed_def transfer_status_def)

section \<open>Running the steps\<close>

lemma io_return_simps [simp]:
  "outcome (io_return a w) = Inr a" "events (io_return a w) = []" "after (io_return a w) = w"
  by (simp_all add: io_return_def)

lemma io_throw_simps [simp]:
  "outcome (io_throw e w) = Inl e" "events (io_throw e w) = []" "after (io_throw e w) = w"
  by (simp_all add: io_throw_def)

lemma io_lift_simps [simp]:
  "outcome (io_lift r w) = r" "events (io_lift r w) = []" "after (io_lift r w) = w"
  by (simp_all add: io_lift_def)

lemma sleep_simps [simp]:
  "outcome (sleep ms w) = Inr ()" "events (sleep ms w) = [Sleep ms]" "after (sleep ms w) = w"
  by (simp_all add: sleep_def)

lemma outcome_io_bind:
  "outcome (io_bind m f w) =
     (case outcome (m w) of Inl e \<Rightarrow> Inl e | Inr a \<Rightarrow> outcome (f a (after (m w))))"
  by (cases "m w"; cases "outcome (m w)")
     (auto simp: io_bind_def split: prod.splits)

lemma events_io_bind:
  "events (io_bind m f w) =
     events (m w) @ (case outcome (m w) of Inl e \<Rightarrow> [] | Inr a \<Rightarrow> events (f a (after (m w))))"
  by (cases "m w"; cases "outcome (m w)")
     (auto simp: io_bind_def split: prod.splits)

lemma after_io_bind:
  "after (io_bind m f w) =
     (case outcome (m w) of Inl e \<Rightarrow> after (m w) | Inr a \<Rightarrow> after (f a (after (m w))))"
  by (cases "m w"; cases "outcome (m w)")
     (auto simp: io_bind_def split: prod.splits)

lemma outcome_io_catch:
  "outcome (io_catch m h w) =
     (case outcome (m w) of Inl e \<Rightarrow> outcome (h e (after (m w))) | Inr a \<Rightarrow> Inr a)"
  by (cases "m w"; cases "outcome (m w)")
     (auto simp: io_catch_def split: prod.splits)

lemma events_io_catch:
  "events (io_catch m h w) =
     events (m w) @ (case outcome (m w) of Inl e \<Rightarrow> events (h e (after (m w))) | Inr a \<Rightarrow> [])"
  by (cases "m w"; cases "outcome (m w)")
     (auto simp: io_catch_def split: prod.splits)

lemma after_io_catch:
  "after (io_catch m h w) =
     (case outcome (m w) of Inl e \<Rightarrow> after (h e (after (m w))) | Inr a \<Rightarrow> after (m w))"
  by (cases "m w"; cases "outcome (m w)")
     (auto simp: io_catch_def split: prod.splits)

lemmas io_run = outcome_io_bind events_io_bind after_io_bind
  outcome_io_catch events_io_catch after_io_catch

lemma setState_simps [simp]:
  "outcome (setState upd w) = Inr ()"
  "events (setState upd w) = [SetState (upd (hook w))]"
  "after (setState upd w) = w\<lparr>hook := upd (hook w)\<rparr>"
  by (simp_all add: setState_def)

lemma getSigner_simps [simp]:
  "outcome (getSigner w) = (case signer_results w 0 of Some e \<Rightarrow> Inl e | None \<Rightarrow> Inr ())"
  "events (getSigner w) = [GetSigner]"
  "after (getSigner w) = w\<lparr>signer_results := rest (signer_results w)\<rparr>"
  by (simp_all add: getSigner_def)

lemma checkAllowance_simps [simp]:
  "outcome (checkAllowance t ow sp w) =
     (case allowance_results w 0 of Some e \<Rightarrow> Inl e | None \<Rightarrow> Inr (allowances w (t, ow, sp)))"
  "events (checkAllowance t ow sp w) = [AllowanceRead t ow sp (outcome (checkAllowance t ow sp w))]"
  "after (checkAllowance t ow sp w) = w\<lparr>allowance_results := rest (allowance_results w)\<rparr>"
  by (simp_all add: checkAllowance_def Let_def)

lemma approveToken_simps [simp]:
  "outcome (approveToken t sp a w) =
     (case approve_results w 0 of ApproveRejected e \<Rightarrow> Inl e | ApproveReverted e \<Rightarrow> Inl e
      | ApproveMined \<Rightarrow> Inr ())"
  "events (approveToken t sp a w) = [Approve t sp a (approve_results w 0)]"
  "after (approveToken t sp a w) =
     (case approve_results w 0 of
        ApproveMined \<Rightarrow> w\<lparr>approve_results := rest (approve_results w),
                          allowances := (allowances w)((t, signer_address w, sp) := a)\<rparr>
      | _ \<Rightarrow> w\<lparr>approve_results := rest (approve_results w)\<rparr>)"
  by (simp_all add: approveToken_def Let_def split: approve_outcome.splits)

lemma executeBridge_simps [simp]:
  "outcome (executeBridge r w) = send_results w 0"
  "events (executeBridge r w) = [SendTransaction (sent_transaction r) (send_results w 0)]"
  "after (executeBridge r w) = w\<lparr>send_results := rest (send_results w)\<rparr>"
  by (simp_all add: executeBridge_def)

lemma wait_mined_simps [simp]:
  "outcome (wait_mined h w) = (case wait_results w 0 of Some e \<Rightarrow> Inl e | None \<Rightarrow> Inr ())"
  "events (wait_mined h w) = [WaitMined h (wait_results w 0)]"
  "after (wait_mined h w) = w\<lparr>wait_results := rest (wait_results w)\<rparr>"
  by (simp_all add: wait_mined_def)

lemma silent_projections:
  "list_all silent evs \<Longrightarrow> states evs = [] \<and> approvals evs = [] \<and> sent evs = []"
  by (induction evs)
     (auto simp: silent_def states_def approvals_def sent_def split: event.splits)

lemma request_or_delay_silent: "list_all request_or_delay evs \<Longrightarrow> list_all silent evs"
  by (induction evs) (auto simp: request_or_delay_def silent_def split: event.splits)

lemma route_attempt_events: "list_all request_or_delay (events (route_attempt p w))"
  by (simp add: route_attempt_def Let_def request_or_delay_def split: fetched.splits body.splits)

lemma route_attempt_hook: "hook (after (route_attempt p w)) = hook w"
  by (simp add: route_attempt_def Let_def split: fetched.splits body.splits)

lemma getRoute_events: "list_all request_or_delay (events (getRoute p w))"
proof -
  have "list_all request_or_delay (events (retryWithBackoff (route_attempt q) 5 1000 w))" for q
    unfolding retryWithBackoff_def
    by (rule retry_loop_events) (simp_all add: route_attempt_events request_or_delay_def)
  then show ?thesis
    by (simp add: getRoute_def Let_def events_io_bind split: sum.splits option.splits)
qed

lemma getRoute_hook [simp]: "hook (after (getRoute p w)) = hook w"
proof -
  have "hook (after (retryWithBackoff (route_attempt q) 5 1000 w)) = hook w" for q
    unfolding retryWithBackoff_def
    by (rule retry_loop_preserves) (simp add: route_attempt_hook)
  then show ?thesis
    by (simp add: getRoute_def Let_def after_io_bind split: sum.splits option.splits)
qed

lemma monitor_loop_silent:
  "list_all silent (events (monitor_loop h q f t cb ival a w))"
proof (induction "maxAttempts - a" arbitrary: a w)
  case 0
  then show ?case by (simp add: monitor_loop_done)
next
  case (Suc n)
  then have a: "a < maxAttempts" and n: "n = maxAttempts - Suc a" by simp_all
  obtain evs where g: "events (getTransactionStatus h q f t w) = StatusPoll h q f t # evs"
    "list_all request_or_delay evs"
    using getTransactionStatus_events [of h q f t w] by auto
  have p: "list_all silent (events (poll_once h q f t cb ival w))"
    using g by (auto simp: poll_once_events notified_def silent_def request_or_delay_silent
                  split: option.splits sum.splits loop_step.splits)
  show ?case
  proof (cases rule: poll_once_outcome_cases [of h q f t cb ival w])
    case (return st)
    with a p show ?thesis by (simp add: monitor_loop_return)
  next
    case continue
    from Suc.hyps(1) [OF n, of "after (poll_once h q f t cb ival w)"] a continue(1) p
    show ?thesis by (simp add: monitor_loop_continue)
  qed
qed

lemma status_attempt_hook: "hook (after (status_attempt h q f t w)) = hook w"
  by (simp add: status_attempt_def Let_def split: fetched.splits body.splits)

lemma getTransactionStatus_hook [simp]: "hook (after (getTransactionStatus h q f t w)) = hook w"
proof -
  have "hook (after (retryWithBackoff (status_attempt h q f t) 5 1000 w)) = hook w"
    unfolding retryWithBackoff_def
    by (rule retry_loop_preserves) (simp add: status_attempt_hook)
  then show ?thesis
    by (cases "retryWithBackoff (status_attempt h q f t) 5 1000 w")
       (simp add: getTransactionStatus_def)
qed

lemma monitor_loop_hook: "hook (after (monitor_loop h q f t cb ival a w)) = hook w"
proof (induction "maxAttempts - a" arbitrary: a w)
  case 0
  then show ?case by (simp add: monitor_loop_done)
next
  case (Suc n)
  then have a: "a < maxAttempts" and n: "n = maxAttempts - Suc a" by simp_all
  show ?case
  proof (cases rule: poll_once_outcome_cases [of h q f t cb ival w])
    case (return st)
    with a show ?thesis by (simp add: monitor_loop_return poll_once_after)
  next
    case continue
    from Suc.hyps(1) [OF n, of "after (poll_once h q f t cb ival w)"] a continue(1)
    show ?thesis by (simp add: monitor_loop_continue poll_once_after)
  qed
qed

lemma monitorTransaction_silent: "list_all silent (events (monitorTransaction h q f t cb ival w))"
  by (simp add: monitorTransaction_unfold monitor_loop_silent silent_def)

lemma monitorTransaction_hook [simp]:
  "hook (after (monitorTransaction h q f t cb ival w)) = hook w"
  by (simp add: monitorTransaction_unfold monitor_loop_hook)

lemma getRoute_silent: "list_all silent (events (getRoute p w))"
  by (rule request_or_delay_silent) (rule getRoute_events)

lemma projections_simps [simp]:
  "states [] = []" "states (xs @ ys) = states xs @ states ys"
  "states (SetState st # evs) = st # states evs"
  "states (GetSigner # evs) = states evs"
  "states (AllowanceRead t ow sp r # evs) = states evs"
  "states (Approve t sp a out # evs) = states evs"
  "states (SendTransaction tx sr # evs) = states evs"
  "states (WaitMined h wr # evs) = states evs"
  "approvals [] = []" "approvals (xs @ ys) = approvals xs @ approvals ys"
  "approvals (SetState st # evs) = approvals evs"
  "approvals (GetSigner # evs) = approvals evs"
  "approvals (AllowanceRead t ow sp r # evs) = approvals evs"
  "approvals (Approve t sp a out # evs) = (t, sp, a) # approvals evs"
  "approvals (SendTransaction tx sr # evs) = approvals evs"
  "approvals (WaitMined h wr # evs) = approvals evs"
  "sent [] = []" "sent (xs @ ys) = sent xs @ sent ys"
  "sent (SetState st # evs) = sent evs"
  "sent (GetSigner # evs) = sent evs"
  "sent (AllowanceRead t ow sp r # evs) = sent evs"
  "sent (Approve t sp a out # evs) = sent evs"
  "sent (SendTransaction tx sr # evs) = tx # sent evs"
  "sent (WaitMined h wr # evs) = sent evs"
  by (simp_all add: states_def approvals_def sent_def)

lemma getRoute_projections [simp]:
  "states (events (getRoute p w)) = []" "approvals (events (getRoute p w)) = []"
  "sent (events (getRoute p w)) = []"
  using silent_projections [OF getRoute_silent [of p w]] by simp_all

lemma monitorTransaction_projections [simp]:
  "states (events (monitorTransaction h q f t cb ival w)) = []"
  "approvals (events (monitorTransaction h q f t cb ival w)) = []"
  "sent (events (monitorTransaction h q f t cb ival w)) = []"
  using silent_projections [OF monitorTransaction_silent [of h q f t cb ival w]] by simp_all

lemma bridge_catch_throws: "\<exists>e'. outcome (bridge_catch e w) = Inl e'"
  by (cases e) (simp_all add: bridge_catch_def io_run Let_def)

lemma digit_val_simps [simp]:
  "digit_val CHR ''0'' = Some 0" "digit_val CHR ''1'' = Some 1" "digit_val CHR ''2'' = Some 2"
  "digit_val CHR ''3'' = Some 3" "digit_val CHR ''4'' = Some 4" "digit_val CHR ''5'' = Some 5"
  "digit_val CHR ''6'' = Some 6" "digit_val CHR ''7'' = Some 7" "digit_val CHR ''8'' = Some 8"
  "digit_val CHR ''9'' = Some 9"
  by (simp_all add: digit_val_def)

lemma replicate_6: "replicate 6 c = [c, c, c, c, c, c]"
  by (simp add: eval_nat_numeral)

lemma parseUnits_10: "parseUnits ''10'' TOKEN_DECIMALS_USDC = Inr 10000000"
  by (simp add: parseUnits_def Let_def is_digit_def replicate_6 TOKEN_DECIMALS_USDC_def)

lemma toString_10: "bigint_toString 10000000 = ''10000000''"
  by (simp add: bigint_toString_def string_of_nat.simps digit_char_def)

lemma BigInt_10: "BigInt ''10000000'' = Inr 10000000"
  by (simp add: BigInt_def StrIntegerLiteral_def trim_def is_space_def literal_val_def)

section \<open>The order of the steps of the hook\<close>

lemma sequenced_append:
  "sequenced wallet pre (xs @ ys) = (sequenced wallet pre xs \<and> sequenced wallet (pre @ xs) ys)"
  by (induction xs arbitrary: pre) auto

lemma sequenced_silent: "list_all silent xs \<Longrightarrow> sequenced wallet pre xs"
  by (induction xs arbitrary: pre) (auto simp: silent_def split: event.splits)

lemma allowance_verified_mono:
  "allowance_verified wallet r pre \<Longrightarrow> allowance_verified wallet r (pre @ xs)"
  by (auto simp: allowance_verified_def split: sum.splits)

lemma allowance_verified_mono2:
  "allowance_verified wallet r xs \<Longrightarrow> allowance_verified wallet r (pre @ xs)"
  by (auto simp: allowance_verified_def split: sum.splits)

lemma confirmed_mined_mono:
  "confirmed_mined h pre \<Longrightarrow> confirmed_mined h (pre @ xs)"
  by (auto simp: confirmed_mined_def)

text \<open>Step 2: a completed check leaves the allowance verified.\<close>

lemma ensure_allowance_verified:
  assumes "outcome (ensure_allowance wallet r w) = Inr u"
  shows "allowance_verified wallet r (events (ensure_allowance wallet r w))"
  using assms
  by (auto simp: ensure_allowance_def io_run allowance_verified_def
           split: sum.splits option.splits if_splits approve_outcome.splits)

lemma ensure_allowance_hook [simp]: "hook (after (ensure_allowance wallet r w)) = hook w"
  by (simp add: ensure_allowance_def io_run
           split: sum.splits option.splits if_splits approve_outcome.splits)

lemma ensure_allowance_sequenced: "sequenced wallet pre (events (ensure_allowance wallet r w))"
  by (simp add: ensure_allowance_def io_run
           split: sum.splits option.splits if_splits approve_outcome.splits)

lemma allowance_verified_subset:
  "allowance_verified wallet r xs \<Longrightarrow> set xs \<subseteq> set ys \<Longrightarrow> allowance_verified wallet r ys"
  by (auto simp: allowance_verified_def list_ex_iff split: sum.splits)

lemma confirmed_mined_subset:
  "confirmed_mined h xs \<Longrightarrow> set xs \<subseteq> set ys \<Longrightarrow> confirmed_mined h ys"
  by (auto simp: confirmed_mined_def list_ex_iff)

lemma bridge_monitor_sequenced:
  "txHash (hook w) = Some h \<Longrightarrow> confirmed_mined h pre \<Longrightarrow>
     sequenced wallet pre (events (bridge_monitor h q w))"
  by (simp add: bridge_monitor_def io_run sequenced_append sequenced_silent monitorTransaction_silent
        split: sum.splits)

lemma bridge_execute_sequenced:
  "route (hook w) = Some r \<Longrightarrow> allowance_verified wallet r pre \<Longrightarrow>
     sequenced wallet pre (events (bridge_execute r w))"
  by (simp add: bridge_execute_def io_run allowance_verified_mono split: sum.splits option.splits)

lemma bridge_execute_done:
  "outcome (bridge_execute r w) = Inr h \<Longrightarrow>
     txHash (hook (after (bridge_execute r w))) = Some h
     \<and> confirmed_mined h (events (bridge_execute r w))"
  by (auto simp: bridge_execute_def io_run confirmed_mined_def split: sum.splits option.splits)

lemma bridge_approve_sequenced: "sequenced wallet pre (events (bridge_approve wallet r w))"
  by (simp add: bridge_approve_def io_run ensure_allowance_sequenced)

lemma bridge_approve_done:
  "outcome (bridge_approve wallet r w) = Inr u \<Longrightarrow>
     allowance_verified wallet r (events (bridge_approve wallet r w))
     \<and> route (hook (after (bridge_approve wallet r w))) = route (hook w)"
  using ensure_allowance_verified [of wallet r "w\<lparr>hook := hook w\<lparr>status := Approving\<rparr>\<rparr>" u]
    allowance_verified_mono2 [of wallet r _ "[SetState (hook w\<lparr>status := Approving\<rparr>)]"]
  by (simp add: bridge_approve_def io_run)

lemma bridge_quote_sequenced: "sequenced wallet pre (events (bridge_quote wallet amount w))"
  by (simp add: bridge_quote_def io_run sequenced_append sequenced_silent getRoute_silent
        split: sum.splits)

lemma bridge_quote_done:
  "outcome (bridge_quote wallet amount w) = Inr resp \<Longrightarrow>
     route (hook (after (bridge_quote wallet amount w))) = Some (rr_route resp)"
  by (auto simp: bridge_quote_def io_run split: sum.splits)

lemma bridge_catch_sequenced: "sequenced wallet pre (events (bridge_catch e w))"
  by (cases e) (simp_all add: bridge_catch_def io_run Let_def)

lemma getSigner_hook: "hook (after (getSigner w)) = hook w"
  by simp

lemma bridge_try_sequenced: "sequenced wallet pre (events (bridge_try wallet amount w))"
proof -
  let ?w1 = "after (getSigner w)"
  let ?p1 = "pre @ events (getSigner w)"
  show ?thesis
  proof (cases "outcome (getSigner w)")
    case (Inl e)
    then show ?thesis by (simp add: bridge_try_def events_io_bind)
  next
    case u: (Inr u)
    let ?q = "bridge_quote wallet amount ?w1"
    let ?p2 = "?p1 @ events ?q"
    have g1: "sequenced wallet ?p1 (events ?q)" by (rule bridge_quote_sequenced)
    show ?thesis
    proof (cases "outcome ?q")
      case (Inl e)
      with u g1 show ?thesis by (simp add: bridge_try_def events_io_bind sequenced_append)
    next
      case resp: (Inr resp)
      let ?r = "rr_route resp"
      let ?a = "bridge_approve wallet ?r (after ?q)"
      let ?p3 = "?p2 @ events ?a"
      have r2: "route (hook (after ?q)) = Some ?r" using resp by (rule bridge_quote_done)
      have g2: "sequenced wallet ?p2 (events ?a)" by (rule bridge_approve_sequenced)
      show ?thesis
      proof (cases "outcome ?a")
        case (Inl e)
        with u resp g1 g2 show ?thesis
          by (simp add: bridge_try_def events_io_bind sequenced_append)
      next
        case a: (Inr ua)
        let ?x = "bridge_execute ?r (after ?a)"
        let ?p4 = "?p3 @ events ?x"
        from bridge_approve_done [OF a] r2
        have v: "allowance_verified wallet ?r ?p3" and r3: "route (hook (after ?a)) = Some ?r"
          by (auto intro: allowance_verified_subset)
        have g3: "sequenced wallet ?p3 (events ?x)" using r3 v by (rule bridge_execute_sequenced)
        show ?thesis
        proof (cases "outcome ?x")
          case (Inl e)
          with u resp a g1 g2 g3 show ?thesis
            by (simp add: bridge_try_def events_io_bind sequenced_append)
        next
          case h: (Inr h)
          from bridge_execute_done [OF h]
          have t: "txHash (hook (after ?x)) = Some h" and m: "confirmed_mined h ?p4"
            by (auto intro: confirmed_mined_subset)
          have g4: "sequenced wallet ?p4 (events (bridge_monitor h (requestId resp) (after ?x)))"
            using t m by (rule bridge_monitor_sequenced)
          with u resp a h g1 g2 g3 show ?thesis
            by (simp add: bridge_try_def events_io_bind sequenced_append)
        qed
      qed
    qed
  qed
qed

text \<open>
  C9. In every run of \<^verbatim>\<open>bridge\<close> the hook shows the status \<^verbatim>\<open>bridging\<close> (and sends
  the bridge transaction) only after the allowance of the wallet for the target of the
  stored plan has been verified to cover the plan's amount (read and sufficient, or
  approved for the amount with the approval mined), and shows the status
  \<^verbatim>\<open>monitoring\<close> only after the bridge transaction has been confirmed mined.
\<close>

theorem bridge_sequenced:
  "sequenced (case walletAddress w of None \<Rightarrow> [] | Some wallet \<Rightarrow> wallet) []
     (events (bridge amount w))"
proof (cases "walletAddress w")
  case None
  then show ?thesis by (simp add: bridge_def)
next
  case (Some wallet)
  show ?thesis
  proof (cases "wallet = [] \<or> \<not> ethereum w")
    case True
    with Some show ?thesis by (auto simp: bridge_def)
  next
    case False
    let ?w1 = "w\<lparr>hook := hook w\<lparr>isLoading := True, error := None, status := Idle\<rparr>\<rparr>"
    let ?s1 = "SetState (hook w\<lparr>isLoading := True, error := None, status := Idle\<rparr>)"
    have "sequenced wallet [?s1] (events (bridge_try wallet amount ?w1))"
      by (rule bridge_try_sequenced)
    moreover have "sequenced wallet ([?s1] @ events (bridge_try wallet amount ?w1))
        (events (bridge_catch e (after (bridge_try wallet amount ?w1))))" for e
      by (rule bridge_catch_sequenced)
    ultimately show ?thesis using Some False
      by (simp add: bridge_def io_run sequenced_append split: sum.splits)
  qed
qed

section \<open>The quote\<close>

lemma getRoute_unfold:
  "outcome (getRoute p w) =
     (case outcome (retryWithBackoff (route_attempt p) 5 1000 w) of
        Inl e \<Rightarrow> Inl e
      | Inr j \<Rightarrow>
          (case json_route j of
             None \<Rightarrow> Inl (new_Error ''Invalid API response: missing route'')
           | Some r \<Rightarrow> Inr \<lparr>rr_route = r, requestId = or_else (quoteId r) []\<rparr>))"
  by (simp add: getRoute_def FEE_BASIS_POINTS_def outcome_io_bind split: sum.splits option.splits)

lemma ex_less_5:
  "(\<exists>k<5. P k) =
     (P 0 \<or> P (Suc 0) \<or> P (Suc (Suc 0)) \<or> P (Suc (Suc (Suc 0))) \<or> P (Suc (Suc (Suc (Suc 0)))))"
proof -
  have "{..<5::nat} = {0, Suc 0, Suc (Suc 0), Suc (Suc (Suc 0)), Suc (Suc (Suc (Suc 0)))}"
    by (auto simp: eval_nat_numeral less_Suc_eq)
  then show ?thesis by (auto simp: lessThan_def set_eq_iff)
qed

text \<open>A parsed answer comes from one of the first five responses, a success with that body.\<close>

lemma route_retry_answer:
  "outcome (retryWithBackoff (route_attempt p) 5 1000 w) = Inr j \<Longrightarrow>
     \<exists>k<5. \<exists>st. route_http w k = Response st (Json j) \<and> res_ok st"
  by (simp add: retryWithBackoff_def retry_loop.simps route_attempt_def Let_def ex_less_5
        json_parse_error_def
        split: fetched.splits body.splits if_splits sum.splits)

lemma route_retry_first:
  "route_http w 0 = Response st b \<Longrightarrow>
     outcome (retryWithBackoff (route_attempt p) 5 1000 w) =
       (if \<not> res_ok st then
          Inl (new_Error (or_else (case b of NotJson \<Rightarrow> Some ''Unknown error''
                                   | Json j \<Rightarrow> json_error j)
                            (''API Error: '' @ string_of_nat st)))
        else (case b of NotJson \<Rightarrow> Inl json_parse_error | Json j \<Rightarrow> Inr j))"
  by (simp add: retryWithBackoff_def retry_loop.simps route_attempt_def Let_def
        json_parse_error_def split: body.splits)

lemma getRoute_answer:
  assumes "outcome (getRoute p w) = Inr resp"
  shows "\<exists>k<5. \<exists>st j. route_http w k = Response st (Json j) \<and> res_ok st
            \<and> json_route j = Some (rr_route resp)"
    and "requestId resp = or_else (quoteId (rr_route resp)) []"
proof -
  from assms obtain j where j: "outcome (retryWithBackoff (route_attempt p) 5 1000 w) = Inr j"
    by (cases "outcome (retryWithBackoff (route_attempt p) 5 1000 w)")
       (simp_all add: getRoute_unfold)
  from route_retry_answer [OF j] obtain k st where
    k: "k < 5" "route_http w k = Response st (Json j)" "res_ok st" by blast
  from j assms have r: "json_route j = Some (rr_route resp)"
    by (cases "json_route j") (auto simp: getRoute_unfold)
  from k r show "\<exists>k<5. \<exists>st j. route_http w k = Response st (Json j) \<and> res_ok st
            \<and> json_route j = Some (rr_route resp)"
    by blast
  from j assms show "requestId resp = or_else (quoteId (rr_route resp)) []"
    by (cases "json_route j") (auto simp: getRoute_unfold)
qed

text \<open>Every attempt is one request, for the parameters given; the first is always made.\<close>

lemma route_attempt_request: "events (route_attempt p w) = [FetchRoute p]"
  by (simp add: route_attempt_def Let_def split: fetched.splits body.splits)

lemma getRoute_first: "\<exists>evs. events (getRoute p w) = FetchRoute p # evs"
  using retry_loop_first [of 0 5 "route_attempt p" 1000 Undefined w]
  by (auto simp: getRoute_def FEE_BASIS_POINTS_def events_io_bind retryWithBackoff_def
        route_attempt_request)

lemma getRoute_quotes: "set (quotes (events (getRoute p w))) = {p}"
proof -
  have "set (quotes (events (retryWithBackoff (route_attempt p) 5 1000 w))) \<subseteq> {p}"
    unfolding retryWithBackoff_def
    by (rule retry_loop_quotes) (simp add: route_attempt_request)
  then have "set (quotes (events (getRoute p w))) \<subseteq> {p}"
    by (simp add: getRoute_def FEE_BASIS_POINTS_def events_io_bind split: sum.splits option.splits)
  moreover from getRoute_first [of p w] have "p \<in> set (quotes (events (getRoute p w)))" by auto
  ultimately show ?thesis by auto
qed

lemma getRoute_requests: "requests (events (getRoute p w)) \<le> 5"
proof -
  have "requests (events (retryWithBackoff (route_attempt p) 5 1000 w)) \<le> nat (5 - 0)"
    unfolding retryWithBackoff_def
  proof (rule retry_loop_requests)
    show "requests (events (route_attempt p s)) \<le> 1" for s
      by (simp add: route_attempt_request)
  qed
  then show ?thesis
    by (simp add: getRoute_def FEE_BASIS_POINTS_def events_io_bind split: sum.splits option.splits)
qed

text \<open>
  Requests that fail transiently are tried again: after \<open>k\<close> of them the answer to
  request \<open>k + 1\<close> decides, as long as that is one of the five.
\<close>

lemma transient_fetch_simps [simp]:
  "transient_fetch (FetchThrows e) = isRetryable e" "\<not> transient_fetch (Response st b)"
  by (simp_all add: transient_fetch_def)

lemma route_attempt_transient:
  "transient_fetch (route_http w 0) \<Longrightarrow>
     \<exists>e. isRetryable e \<and>
       route_attempt p w = (Inl e, [FetchRoute p], w\<lparr>route_http := rest (route_http w)\<rparr>)"
  by (cases "route_http w 0") (simp_all add: route_attempt_def Let_def)

lemma route_attempt_response:
  "route_http w 0 = Response st b \<Longrightarrow>
     outcome (route_attempt p w) =
       (if \<not> res_ok st then
          Inl (new_Error (or_else (case b of NotJson \<Rightarrow> Some ''Unknown error''
                                   | Json j \<Rightarrow> json_error j)
                            (''API Error: '' @ string_of_nat st)))
        else (case b of NotJson \<Rightarrow> Inl json_parse_error | Json j \<Rightarrow> Inr j))"
  by (simp add: route_attempt_def Let_def split: body.splits)

lemma retry_loop_route_skip:
  assumes "0 \<le> a" and "a + int k < 5" and "\<forall>i<k. transient_fetch (route_http w i)"
  shows "outcome (retry_loop (route_attempt p) 5 1000 a le w) =
     (case route_http w k of
        Response st b \<Rightarrow>
          (if \<not> res_ok st then
             Inl (new_Error (or_else (case b of NotJson \<Rightarrow> Some ''Unknown error''
                                      | Json j \<Rightarrow> json_error j)
                               (''API Error: '' @ string_of_nat st)))
           else (case b of NotJson \<Rightarrow> Inl json_parse_error | Json j \<Rightarrow> Inr j))
      | FetchThrows e \<Rightarrow>
          if \<not> isRetryable e \<or> a + int k = 4 then Inl e
          else outcome (retry_loop (route_attempt p) 5 1000 (a + int k + 1) e
                 (w\<lparr>route_http := (\<lambda>i. route_http w (i + Suc k))\<rparr>)))"
  using assms
proof (induction k arbitrary: a le w)
  case 0
  show ?case
  proof (cases "route_http w 0")
    case (FetchThrows e)
    then have "route_attempt p w = (Inl e, [FetchRoute p], w\<lparr>route_http := rest (route_http w)\<rparr>)"
      by (simp add: route_attempt_def Let_def)
    with 0 FetchThrows show ?thesis
      by (simp add: retry_loop_outcome [of a 5] rest_def)
  next
    case (Response st b)
    with 0 route_attempt_response [OF Response, of p] show ?thesis
      by (simp add: retry_loop_outcome [of a 5] json_parse_error_def split: body.splits)
  qed
next
  case (Suc k)
  let ?w1 = "w\<lparr>route_http := rest (route_http w)\<rparr>"
  from Suc.prems(3) have t0: "transient_fetch (route_http w 0)" by simp
  then obtain e where e: "isRetryable e" "route_attempt p w = (Inl e, [FetchRoute p], ?w1)"
    using route_attempt_transient [of w p] by blast
  from Suc.prems have a: "a < 5" "a \<noteq> 4" "0 \<le> a + 1" "a + 1 + int k < 5" by simp_all
  from Suc.prems(3) have t: "\<forall>i<k. transient_fetch (route_http ?w1 i)" by simp
  have "outcome (retry_loop (route_attempt p) 5 1000 a le w)
      = outcome (retry_loop (route_attempt p) 5 1000 (a + 1) e ?w1)"
    using a e by (simp add: retry_loop_outcome [of a 5])
  then show ?case
    using Suc.IH [OF a(3) a(4) t, of e]
    by (simp add: algebra_simps split: fetched.splits)
qed

lemma route_retry_decided:
  assumes "k < 5" and "\<forall>i<k. transient_fetch (route_http w i)"
  shows "route_http w k = Response st b \<Longrightarrow>
      outcome (retryWithBackoff (route_attempt p) 5 1000 w) =
        (if \<not> res_ok st then
           Inl (new_Error (or_else (case b of NotJson \<Rightarrow> Some ''Unknown error''
                                    | Json j \<Rightarrow> json_error j)
                             (''API Error: '' @ string_of_nat st)))
         else (case b of NotJson \<Rightarrow> Inl json_parse_error | Json j \<Rightarrow> Inr j))"
    and "route_http w k = FetchThrows e \<Longrightarrow> \<not> isRetryable e \<or> k = 4 \<Longrightarrow>
      outcome (retryWithBackoff (route_attempt p) 5 1000 w) = Inl e"
  using retry_loop_route_skip [of 0 k w p Undefined] assms
  by (simp_all add: retryWithBackoff_def)

text \<open>Among the first five requests there is always one whose answer decides.\<close>

lemma route_decisive_exists:
  "\<exists>n<5. (\<forall>i<n. transient_fetch (route_http w i))
            \<and> (\<not> transient_fetch (route_http w n) \<or> n = 4)"
proof -
  have "\<exists>n<5. (\<forall>i<n. P i) \<and> (\<not> P n \<or> n = 4)" for P :: "nat \<Rightarrow> bool"
  proof (cases "\<forall>i<4. P i")
    case True
    then show ?thesis by (intro exI [of _ 4]) simp
  next
    case False
    then obtain n where n: "n < 4" "\<not> P n" "\<forall>i<n. P i"
      using exists_least_iff [of "\<lambda>i. i < 4 \<and> \<not> P i"] by (auto simp: not_less)
    then show ?thesis by (intro exI [of _ n]) simp
  qed
  then show ?thesis .
qed

text \<open>
  C6 as stated fails: the quote service answers with a plan whose target is the empty
  string, and \<^verbatim>\<open>getRoute\<close> returns that plan.
\<close>

theorem getRoute_empty_target_counterexample:
  "outcome (getRoute (params (plan ''10000000'')) careless_world)
     = Inr \<lparr>rr_route = blank_plan, requestId = ''quote-1''\<rparr>
   \<and> target (transactionRequest blank_plan) = []"
  by (simp add: getRoute_unfold route_retry_first [where st = 200 and b = "Json \<lparr>json_error = None,
        json_route = Some blank_plan\<rparr>"] careless_world_def res_ok_def
        blank_plan_def plan_def or_else_def)

text \<open>
  C6, amended. For every request, \<^verbatim>\<open>getRoute\<close> sends at most five requests to the quote
  service and either returns or throws. What it returns is the \<^verbatim>\<open>route\<close> of a success
  response among the first five, with the route's \<^verbatim>\<open>quoteId\<close> or the empty string
  as request id. The answer to request \<open>k + 1\<close>, after \<open>k\<close> requests that failed
  transiently, decides, for every \<open>k\<close> below five:
  a response with a status that is not a success makes it throw an error whose message is
  the body's \<^verbatim>\<open>error\<close>, or \<^verbatim>\<open>API Error:\<close> and the status (a body that is not JSON
  counts as the error \<^verbatim>\<open>Unknown error\<close>); a success response whose body is not JSON
  makes it throw the parse error; a success response without a route makes it throw
  \<^verbatim>\<open>Invalid API response: missing route\<close>; a success response with a route makes it
  return that route as it is, the presence of the route being the only check (the plan's
  target is not looked at and may be empty); and a request that fails with an error that
  is not transient, or the fifth request failing, makes it throw that error. There is
  always such a request among the first five, so these cases cover every sequence of
  answers.
\<close>

theorem getRoute_result:
  "(case outcome (getRoute p w) of
      Inl e \<Rightarrow> True
    | Inr resp \<Rightarrow>
        (\<exists>k<5. \<exists>st j. route_http w k = Response st (Json j) \<and> res_ok st
            \<and> json_route j = Some (rr_route resp))
        \<and> requestId resp = or_else (quoteId (rr_route resp)) [])
   \<and> requests (events (getRoute p w)) \<le> 5
   \<and> (\<exists>n<5. (\<forall>i<n. transient_fetch (route_http w i))
          \<and> (\<not> transient_fetch (route_http w n) \<or> n = 4))
   \<and> (k < 5 \<and> (\<forall>i<k. transient_fetch (route_http w i)) \<longrightarrow>
        (route_http w k = Response st b \<longrightarrow>
           outcome (getRoute p w) =
             (if \<not> res_ok st then
                Inl (new_Error (or_else (case b of NotJson \<Rightarrow> Some ''Unknown error''
                                         | Json j \<Rightarrow> json_error j)
                                  (''API Error: '' @ string_of_nat st)))
              else (case b of
                      NotJson \<Rightarrow> Inl json_parse_error
                    | Json j \<Rightarrow>
                        (case json_route j of
                           None \<Rightarrow> Inl (new_Error ''Invalid API response: missing route'')
                         | Some r \<Rightarrow> Inr \<lparr>rr_route = r, requestId = or_else (quoteId r) []\<rparr>))))
        \<and> (route_http w k = FetchThrows e \<and> (\<not> isRetryable e \<or> k = 4) \<longrightarrow>
             outcome (getRoute p w) = Inl e))"
proof (intro conjI impI)
  show "case outcome (getRoute p w) of
      Inl e \<Rightarrow> True
    | Inr resp \<Rightarrow>
        (\<exists>k<5. \<exists>st j. route_http w k = Response st (Json j) \<and> res_ok st
            \<and> json_route j = Some (rr_route resp))
        \<and> requestId resp = or_else (quoteId (rr_route resp)) []"
  proof (cases "outcome (getRoute p w)")
    case (Inl e)
    then show ?thesis by simp
  next
    case (Inr resp)
    with getRoute_answer [OF Inr] show ?thesis by simp
  qed
next
  show "requests (events (getRoute p w)) \<le> 5" by (rule getRoute_requests)
next
  show "\<exists>n<5. (\<forall>i<n. transient_fetch (route_http w i))
          \<and> (\<not> transient_fetch (route_http w n) \<or> n = 4)"
    by (rule route_decisive_exists)
next
  assume a: "k < 5 \<and> (\<forall>i<k. transient_fetch (route_http w i))" and r: "route_http w k = Response st b"
  from a have k: "k < 5" and t: "\<forall>i<k. transient_fetch (route_http w i)" by simp_all
  from route_retry_decided(1) [OF k t r, of p]
  show "outcome (getRoute p w) =
             (if \<not> res_ok st then
                Inl (new_Error (or_else (case b of NotJson \<Rightarrow> Some ''Unknown error''
                                         | Json j \<Rightarrow> json_error j)
                                  (''API Error: '' @ string_of_nat st)))
              else (case b of
                      NotJson \<Rightarrow> Inl json_parse_error
                    | Json j \<Rightarrow>
                        (case json_route j of
                           None \<Rightarrow> Inl (new_Error ''Invalid API response: missing route'')
                         | Some r \<Rightarrow> Inr \<lparr>rr_route = r, requestId = or_else (quoteId r) []\<rparr>)))"
    by (simp add: getRoute_unfold split: body.splits)
next
  assume a: "k < 5 \<and> (\<forall>i<k. transient_fetch (route_http w i))"
    and r: "route_http w k = FetchThrows e \<and> (\<not> isRetryable e \<or> k = 4)"
  from a have k: "k < 5" and t: "\<forall>i<k. transient_fetch (route_http w i)" by simp_all
  from r route_retry_decided(2) [OF k t, of e p]
  show "outcome (getRoute p w) = Inl e"
    by (simp add: getRoute_unfold)
qed

theorem getRoute_result_witness:
  "outcome (getRoute (params (plan ''10000000'')) good_world)
     = Inr \<lparr>rr_route = plan ''10000000'', requestId = ''quote-1''\<rparr>
   \<and> transient_fetch (route_http reset_once_world 0)
   \<and> outcome (getRoute (params (plan ''10000000'')) reset_once_world)
       = Inl (new_Error ''Internal Server Error'')
   \<and> outcome (getRoute (params (plan ''10000000'')) limited_world)
       = Inl (new_Error ''Too Many Requests'')
   \<and> outcome (getRoute (params (plan ''10000000'')) routeless_world)
       = Inl (new_Error ''Invalid API response: missing route'')
   \<and> outcome (getRoute (params (plan ''10000000'')) unreachable_world)
       = Inl (new_Error ''Failed to fetch'')"
  using
    getRoute_result [where p = "params (plan ''10000000'')" and w = good_world and k = 0
      and st = 200 and b = "Json \<lparr>json_error = None, json_route = Some (plan ''10000000'')\<rparr>"
      and e = Undefined]
    getRoute_result [where p = "params (plan ''10000000'')" and w = reset_once_world and k = 1
      and st = 500
      and b = "Json \<lparr>json_error = Some ''Internal Server Error'', json_route = None\<rparr>"
      and e = Undefined]
    getRoute_result [where p = "params (plan ''10000000'')" and w = limited_world and k = 0
      and st = 429
      and b = "Json \<lparr>json_error = Some ''Too Many Requests'', json_route = None\<rparr>"
      and e = Undefined]
    getRoute_result [where p = "params (plan ''10000000'')" and w = routeless_world and k = 0
      and st = 200 and b = "Json \<lparr>json_error = None, json_route = None\<rparr>"
      and e = Undefined]
    getRoute_result [where p = "params (plan ''10000000'')" and w = unreachable_world and k = 0
      and st = 200 and b = NotJson and e = "new_Error ''Failed to fetch''"]
  by (simp add: good_world_def reset_once_world_def limited_world_def routeless_world_def
        unreachable_world_def res_ok_def or_else_def plan_def)

section \<open>A run of the hook in which every step succeeds\<close>

lemma route_attempt_allowances: "allowances (after (route_attempt p w)) = allowances w"
  by (simp add: route_attempt_def Let_def split: fetched.splits body.splits)

lemma getRoute_allowances [simp]: "allowances (after (getRoute p w)) = allowances w"
proof -
  have "allowances (after (retryWithBackoff (route_attempt q) 5 1000 w)) = allowances w" for q
    unfolding retryWithBackoff_def
    by (rule retry_loop_preserves) (simp add: route_attempt_allowances)
  then show ?thesis
    by (simp add: getRoute_def Let_def after_io_bind split: sum.splits option.splits)
qed

text \<open>The monitor sends no request to the quote service.\<close>

lemma status_attempt_request: "events (status_attempt h q f t w) = [FetchStatus h q f t]"
  by (simp add: status_attempt_def Let_def split: fetched.splits body.splits)

lemma getTransactionStatus_quotes [simp]: "quotes (events (getTransactionStatus h q f t w)) = []"
proof -
  have "set (quotes (events (retryWithBackoff (status_attempt h q f t) 5 1000 w))) \<subseteq> {}"
    unfolding retryWithBackoff_def
    by (rule retry_loop_quotes) (simp add: status_attempt_request)
  then show ?thesis
    by (cases "retryWithBackoff (status_attempt h q f t) 5 1000 w")
       (simp add: getTransactionStatus_def)
qed

lemma quotes_notified [simp]: "quotes (notified cb r) = []"
  by (simp add: notified_def split: option.splits sum.splits)

lemma poll_once_quotes [simp]: "quotes (events (poll_once h q f t cb ival w)) = []"
  by (simp add: poll_once_events split: sum.splits loop_step.splits)

lemma monitor_loop_quotes: "quotes (events (monitor_loop h q f t cb ival a w)) = []"
proof (induction "maxAttempts - a" arbitrary: a w)
  case 0
  then show ?case by (simp add: monitor_loop_done)
next
  case (Suc n)
  then have a: "a < maxAttempts" and n: "n = maxAttempts - Suc a" by simp_all
  show ?case
  proof (cases rule: poll_once_outcome_cases [of h q f t cb ival w])
    case (return st)
    with a show ?thesis by (simp add: monitor_loop_return)
  next
    case continue
    from Suc.hyps(1) [OF n, of "after (poll_once h q f t cb ival w)"] a continue(1)
    show ?thesis by (simp add: monitor_loop_continue)
  qed
qed

lemma monitorTransaction_quotes [simp]:
  "quotes (events (monitorTransaction h q f t cb ival w)) = []"
  by (simp add: monitorTransaction_unfold monitor_loop_quotes)

lemma bridge_quote_success:
  assumes "outcome (bridge_quote wallet amount w) = Inr resp"
  shows "states (events (bridge_quote wallet amount w)) =
           [hook w\<lparr>status := Idle\<rparr>, hook w\<lparr>status := Idle, route := Some (rr_route resp)\<rparr>]"
    and "approvals (events (bridge_quote wallet amount w)) = []"
    and "sent (events (bridge_quote wallet amount w)) = []"
    and "hook (after (bridge_quote wallet amount w)) =
           hook w\<lparr>status := Idle, route := Some (rr_route resp)\<rparr>"
    and "allowances (after (bridge_quote wallet amount w)) = allowances w"
  using assms by (auto simp: bridge_quote_def io_run split: sum.splits)

text \<open>The quote is asked for the amount in smallest units, from and to the wallet.\<close>

lemma bridge_quote_request:
  assumes "outcome (bridge_quote wallet amount w) = Inr resp"
  shows "\<exists>a. parseUnits amount TOKEN_DECIMALS_USDC = Inr a \<and>
           set (quotes (events (bridge_quote wallet amount w))) =
             {\<lparr>fromChain = CHAIN_IDS_BASE, toChain = CHAIN_IDS_POLYGON,
               fromToken = TOKENS_USDC_BASE, toToken = TOKENS_USDC_POLYGON,
               fromAmount = bigint_toString a, fromAddress = wallet, toAddress = wallet,
               slippage = 1, collectFees = None\<rparr>}"
    and "\<exists>k<5. \<exists>st j. route_http w k = Response st (Json j) \<and> res_ok st
            \<and> json_route j = Some (rr_route resp)"
proof -
  from assms obtain a where a: "parseUnits amount TOKEN_DECIMALS_USDC = Inr a"
    by (cases "parseUnits amount TOKEN_DECIMALS_USDC") (simp_all add: bridge_quote_def io_run)
  let ?p = "\<lparr>fromChain = CHAIN_IDS_BASE, toChain = CHAIN_IDS_POLYGON,
               fromToken = TOKENS_USDC_BASE, toToken = TOKENS_USDC_POLYGON,
               fromAmount = bigint_toString a, fromAddress = wallet, toAddress = wallet,
               slippage = 1, collectFees = None\<rparr>"
  let ?w1 = "w\<lparr>hook := hook w\<lparr>status := Idle\<rparr>\<rparr>"
  from assms a have g: "outcome (getRoute ?p ?w1) = Inr resp"
    by (cases "outcome (getRoute ?p ?w1)") (simp_all add: bridge_quote_def io_run)
  from a g have "set (quotes (events (bridge_quote wallet amount w))) = {?p}"
    by (simp add: bridge_quote_def io_run getRoute_quotes)
  with a show "\<exists>a. parseUnits amount TOKEN_DECIMALS_USDC = Inr a \<and>
           set (quotes (events (bridge_quote wallet amount w))) =
             {\<lparr>fromChain = CHAIN_IDS_BASE, toChain = CHAIN_IDS_POLYGON,
               fromToken = TOKENS_USDC_BASE, toToken = TOKENS_USDC_POLYGON,
               fromAmount = bigint_toString a, fromAddress = wallet, toAddress = wallet,
               slippage = 1, collectFees = None\<rparr>}"
    by blast
  from getRoute_answer(1) [OF g]
  show "\<exists>k<5. \<exists>st j. route_http w k = Response st (Json j) \<and> res_ok st
            \<and> json_route j = Some (rr_route resp)"
    by simp
qed

lemma bridge_approve_success:
  assumes "outcome (bridge_approve wallet r w) = Inr u"
  shows "states (events (bridge_approve wallet r w)) = [hook w\<lparr>status := Approving\<rparr>]"
    and "\<exists>a. BigInt (fromAmount (params r)) = Inr a \<and>
           approvals (events (bridge_approve wallet r w)) =
             (if allowances w (TOKENS_USDC_BASE, wallet, target (transactionRequest r)) < a
              then [(TOKENS_USDC_BASE, target (transactionRequest r), a)] else [])"
    and "sent (events (bridge_approve wallet r w)) = []"
    and "hook (after (bridge_approve wallet r w)) = hook w\<lparr>status := Approving\<rparr>"
  using assms
  by (auto simp: bridge_approve_def ensure_allowance_def io_run
           split: sum.splits option.splits approve_outcome.splits if_splits)

lemma bridge_execute_success:
  assumes "outcome (bridge_execute r w) = Inr h"
  shows "states (events (bridge_execute r w)) =
           [hook w\<lparr>status := Bridging\<rparr>, hook w\<lparr>status := Bridging, txHash := Some h\<rparr>]"
    and "approvals (events (bridge_execute r w)) = []"
    and "sent (events (bridge_execute r w)) = [sent_transaction r]"
    and "hook (after (bridge_execute r w)) = hook w\<lparr>status := Bridging, txHash := Some h\<rparr>"
  using assms by (auto simp: bridge_execute_def io_run split: sum.splits option.splits)

lemma bridge_monitor_success:
  assumes "outcome (bridge_monitor h q w) = Inr res"
  shows "states (events (bridge_monitor h q w)) =
           [hook w\<lparr>status := Monitoring\<rparr>, hook w\<lparr>status := Success, isLoading := False\<rparr>]"
    and "approvals (events (bridge_monitor h q w)) = []"
    and "sent (events (bridge_monitor h q w)) = []"
    and "hook (after (bridge_monitor h q w)) = hook w\<lparr>status := Success, isLoading := False\<rparr>"
  using assms by (auto simp: bridge_monitor_def io_run split: sum.splits if_splits)

lemma outcome_io_bind_Inr:
  "outcome (io_bind m f w) = Inr b \<longleftrightarrow>
     (\<exists>a. outcome (m w) = Inr a \<and> outcome (f a (after (m w))) = Inr b)"
  by (simp add: outcome_io_bind split: sum.splits)

lemma bridge_approve_quotes [simp]: "quotes (events (bridge_approve wallet r w)) = []"
  by (simp add: bridge_approve_def ensure_allowance_def io_run
        split: sum.splits option.splits approve_outcome.splits)

lemma bridge_execute_quotes [simp]: "quotes (events (bridge_execute r w)) = []"
  by (simp add: bridge_execute_def io_run split: sum.splits option.splits)

lemma bridge_monitor_quotes [simp]: "quotes (events (bridge_monitor h q w)) = []"
  by (simp add: bridge_monitor_def io_run split: sum.splits)

lemma bridge_try_success:
  assumes run: "outcome (bridge_try wallet amount w) = Inr res"
  shows "\<exists>r a b. route (hook (after (bridge_try wallet amount w))) = Some r
     \<and> BigInt (fromAmount (params r)) = Inr a
     \<and> parseUnits amount TOKEN_DECIMALS_USDC = Inr b
     \<and> set (quotes (events (bridge_try wallet amount w))) =
             {\<lparr>fromChain = CHAIN_IDS_BASE, toChain = CHAIN_IDS_POLYGON,
               fromToken = TOKENS_USDC_BASE, toToken = TOKENS_USDC_POLYGON,
               fromAmount = bigint_toString b, fromAddress = wallet, toAddress = wallet,
               slippage = 1, collectFees = None\<rparr>}
     \<and> map status (states (events (bridge_try wallet amount w))) =
         [Idle, Idle, Approving, Bridging, Bridging, Monitoring, Success]
     \<and> approvals (events (bridge_try wallet amount w)) =
         (if allowances w (TOKENS_USDC_BASE, wallet, target (transactionRequest r)) < a
          then [(TOKENS_USDC_BASE, target (transactionRequest r), a)] else [])
     \<and> sent (events (bridge_try wallet amount w)) = [sent_transaction r]"
proof -
  let ?w1 = "after (getSigner w)"
  from run obtain u where u: "outcome (getSigner w) = Inr u"
    by (auto simp: bridge_try_def outcome_io_bind_Inr)
  from run u obtain resp where q: "outcome (bridge_quote wallet amount ?w1) = Inr resp"
    by (auto simp: bridge_try_def outcome_io_bind_Inr)
  let ?r = "rr_route resp"
  let ?w2 = "after (bridge_quote wallet amount ?w1)"
  from run u q obtain ua where ap: "outcome (bridge_approve wallet ?r ?w2) = Inr ua"
    by (auto simp: bridge_try_def outcome_io_bind_Inr)
  let ?w3 = "after (bridge_approve wallet ?r ?w2)"
  from run u q ap obtain h where x: "outcome (bridge_execute ?r ?w3) = Inr h"
    by (auto simp: bridge_try_def outcome_io_bind_Inr)
  let ?w4 = "after (bridge_execute ?r ?w3)"
  from run u q ap x have m: "outcome (bridge_monitor h (requestId resp) ?w4) = Inr res"
    by (auto simp: bridge_try_def outcome_io_bind_Inr)
  note Q = bridge_quote_success [OF q]
  note A = bridge_approve_success [OF ap]
  note X = bridge_execute_success [OF x]
  note M = bridge_monitor_success [OF m]
  from A(2) obtain a where a: "BigInt (fromAmount (params ?r)) = Inr a"
    and ap2: "approvals (events (bridge_approve wallet ?r ?w2)) =
             (if allowances ?w2 (TOKENS_USDC_BASE, wallet, target (transactionRequest ?r)) < a
              then [(TOKENS_USDC_BASE, target (transactionRequest ?r), a)] else [])"
    by (elim exE conjE)
  from bridge_quote_request(1) [OF q] obtain b where
    b: "parseUnits amount TOKEN_DECIMALS_USDC = Inr b"
    and qs: "set (quotes (events (bridge_quote wallet amount ?w1))) =
             {\<lparr>fromChain = CHAIN_IDS_BASE, toChain = CHAIN_IDS_POLYGON,
               fromToken = TOKENS_USDC_BASE, toToken = TOKENS_USDC_POLYGON,
               fromAmount = bigint_toString b, fromAddress = wallet, toAddress = wallet,
               slippage = 1, collectFees = None\<rparr>}"
    by (elim exE conjE)
  have "route (hook (after (bridge_try wallet amount w))) = Some ?r
     \<and> map status (states (events (bridge_try wallet amount w))) =
         [Idle, Idle, Approving, Bridging, Bridging, Monitoring, Success]
     \<and> approvals (events (bridge_try wallet amount w)) =
         (if allowances w (TOKENS_USDC_BASE, wallet, target (transactionRequest ?r)) < a
          then [(TOKENS_USDC_BASE, target (transactionRequest ?r), a)] else [])
     \<and> sent (events (bridge_try wallet amount w)) = [sent_transaction ?r]"
    using u q ap x m Q A(1,3,4) X M a ap2
    by (simp add: bridge_try_def io_run)
  moreover have "set (quotes (events (bridge_try wallet amount w))) =
             {\<lparr>fromChain = CHAIN_IDS_BASE, toChain = CHAIN_IDS_POLYGON,
               fromToken = TOKENS_USDC_BASE, toToken = TOKENS_USDC_POLYGON,
               fromAmount = bigint_toString b, fromAddress = wallet, toAddress = wallet,
               slippage = 1, collectFees = None\<rparr>}"
    using u q ap x m qs by (simp add: bridge_try_def io_run)
  ultimately show ?thesis using a b
    by (intro exI [of _ "rr_route resp"] exI [of _ a] exI [of _ b]) simp
qed

text \<open>The plan a completed run has stored is the route of a success response of the quote service.\<close>

lemma bridge_try_source:
  assumes run: "outcome (bridge_try wallet amount w) = Inr res"
    and r: "route (hook (after (bridge_try wallet amount w))) = Some r"
  shows "\<exists>k<5. \<exists>st j. route_http w k = Response st (Json j) \<and> res_ok st
            \<and> json_route j = Some r"
proof -
  let ?w1 = "after (getSigner w)"
  from run obtain u where u: "outcome (getSigner w) = Inr u"
    by (auto simp: bridge_try_def outcome_io_bind_Inr)
  from run u obtain resp where q: "outcome (bridge_quote wallet amount ?w1) = Inr resp"
    by (auto simp: bridge_try_def outcome_io_bind_Inr)
  let ?r = "rr_route resp"
  let ?w2 = "after (bridge_quote wallet amount ?w1)"
  from run u q obtain ua where ap: "outcome (bridge_approve wallet ?r ?w2) = Inr ua"
    by (auto simp: bridge_try_def outcome_io_bind_Inr)
  let ?w3 = "after (bridge_approve wallet ?r ?w2)"
  from run u q ap obtain h where x: "outcome (bridge_execute ?r ?w3) = Inr h"
    by (auto simp: bridge_try_def outcome_io_bind_Inr)
  let ?w4 = "after (bridge_execute ?r ?w3)"
  from run u q ap x have m: "outcome (bridge_monitor h (requestId resp) ?w4) = Inr res"
    by (auto simp: bridge_try_def outcome_io_bind_Inr)
  have "route (hook (after (bridge_try wallet amount w))) = Some ?r"
    using u q ap x m bridge_quote_success(4) [OF q] bridge_approve_success(4) [OF ap]
      bridge_execute_success(4) [OF x] bridge_monitor_success(4) [OF m]
    by (simp add: bridge_try_def io_run)
  with r have "r = ?r" by simp
  with bridge_quote_request(2) [OF q] show ?thesis by simp
qed

section \<open>The hook: the guard and the status sequence\<close>

lemmas run_defs =
  bridge_def bridge_try_def bridge_quote_def bridge_approve_def bridge_execute_def
  bridge_monitor_def bridge_catch_def ensure_allowance_def getRoute_def route_attempt_def
  retryWithBackoff_def retry_loop.simps monitorTransaction_def monitor_loop.simps
  poll_once_def getTransactionStatus_def status_attempt_def notify_def
  terminal_def res_ok_def or_else_def maxAttempts_def FEE_BASIS_POINTS_def Let_def
  sent_transaction_def when_truthy_def
  io_bind_def io_catch_def io_return_def io_throw_def io_lift_def sleep_def setState_def
  getSigner_def checkAllowance_def approveToken_def executeBridge_def wait_mined_def

lemmas good_defs = good_world_def plan_def transfer_status_def idle_state_def
  parseUnits_10 toString_10 BigInt_10

lemma observed_statuses_simps [simp]:
  "observed_statuses evs = remdups_adj (map status (states evs))"
  by (simp add: observed_statuses_def)

lemma network_calls_simps [simp]:
  "network_calls [] = []"
  "network_calls (SetState st # evs) = network_calls evs"
  "network_calls (Sleep ms # evs) = network_calls evs"
  "network_calls (StatusPoll a b c d # evs) = network_calls evs"
  "network_calls (StatusUpdate s # evs) = network_calls evs"
  "network_calls (GetSigner # evs) = GetSigner # network_calls evs"
  "network_calls (FetchRoute p # evs) = FetchRoute p # network_calls evs"
  "network_calls (FetchStatus a b c d # evs) = FetchStatus a b c d # network_calls evs"
  "network_calls (AllowanceRead t ow sp r # evs) = AllowanceRead t ow sp r # network_calls evs"
  "network_calls (Approve t sp am out # evs) = Approve t sp am out # network_calls evs"
  "network_calls (SendTransaction tx sr # evs) = SendTransaction tx sr # network_calls evs"
  "network_calls (WaitMined h wr # evs) = WaitMined h wr # network_calls evs"
  by (simp_all add: network_calls_def)

lemma projections_quiet [simp]:
  "states (Sleep ms # evs) = states evs" "states (FetchRoute p # evs) = states evs"
  "states (FetchStatus a b c d # evs) = states evs" "states (StatusPoll a b c d # evs) = states evs"
  "states (StatusUpdate s # evs) = states evs"
  "approvals (Sleep ms # evs) = approvals evs" "approvals (FetchRoute p # evs) = approvals evs"
  "approvals (FetchStatus a b c d # evs) = approvals evs"
  "approvals (StatusPoll a b c d # evs) = approvals evs"
  "approvals (StatusUpdate s # evs) = approvals evs"
  "sent (Sleep ms # evs) = sent evs" "sent (FetchRoute p # evs) = sent evs"
  "sent (FetchStatus a b c d # evs) = sent evs" "sent (StatusPoll a b c d # evs) = sent evs"
  "sent (StatusUpdate s # evs) = sent evs"
  by (simp_all add: states_def approvals_def sent_def)

lemma bridge_good_world:
  "outcome (bridge ''10'' good_world) = Inr (''0xb1'', transfer_status ''success'')"
  "route (hook (after (bridge ''10'' good_world))) = Some (plan ''10000000'')"
  by (simp_all add: run_defs good_defs)

lemma bridge_busy_world:
  "outcome (bridge ''10'' busy_world) = Inr (''0xb1'', transfer_status ''success'')"
  "status (hook (after (bridge ''10'' busy_world))) = Success"
  "length (network_calls (events (bridge ''10'' busy_world))) = 9"
  by (simp_all add: run_defs good_defs busy_world_def)

text \<open>
  C1 as stated fails: \<^verbatim>\<open>bridge\<close> called while the hook shows \<^verbatim>\<open>approving\<close> does not
  throw; it runs the whole flow, makes nine network calls and changes the state.
\<close>

theorem bridge_no_busy_guard_counterexample:
  "status (hook busy_world) = Approving
   \<and> isLoading (hook busy_world)
   \<and> outcome (bridge ''10'' busy_world) = Inr (''0xb1'', transfer_status ''success'')
   \<and> length (network_calls (events (bridge ''10'' busy_world))) = 9
   \<and> status (hook (after (bridge ''10'' busy_world))) = Success"
  using bridge_busy_world by (simp add: busy_world_def idle_state_def)

lemma network_calls_append:
  "network_calls (xs @ ys) = network_calls xs @ network_calls ys"
  by (simp add: network_calls_def)

lemma bridge_catch_network: "network_calls (events (bridge_catch e w)) = []"
  by (cases e) (simp_all add: bridge_catch_def io_run Let_def)

text \<open>Without a signer, or with an amount that is not a number, the attempt ends before the quote.\<close>

lemma bridge_try_refused:
  assumes "signer_results w 0 = Some e \<or> parseUnits amount TOKEN_DECIMALS_USDC = Inl e"
  shows "\<exists>e'. outcome (bridge_try wallet amount w) = Inl e'"
    and "network_calls (events (bridge_try wallet amount w)) = [GetSigner]"
  using assms
  by (cases "signer_results w 0"; simp add: bridge_try_def bridge_quote_def io_run)+

text \<open>Every step of the hook is blind to the state the hook shows, and so are the loops.\<close>

lemma alike_hook [simp]: "alike (w\<lparr>hook := h\<rparr>) w"
  by (simp add: alike_def)

lemma alike_iff: "alike w1 w2 = (\<exists>h. w1 = w2\<lparr>hook := h\<rparr>)"
  by (auto simp: alike_def)

lemma blindI:
  assumes "\<And>w1 w2. alike w1 w2 \<Longrightarrow> outcome (m w1) = outcome (m w2)"
    and "\<And>w1 w2. alike w1 w2 \<Longrightarrow>
           network_calls (events (m w1)) = network_calls (events (m w2))"
    and "\<And>w1 w2. alike w1 w2 \<Longrightarrow> alike (after (m w1)) (after (m w2))"
  shows "blind m"
  using assms by (simp add: blind_def)

lemma blindD:
  assumes "blind m" and "alike w1 w2"
  shows "outcome (m w1) = outcome (m w2)"
    and "network_calls (events (m w1)) = network_calls (events (m w2))"
    and "alike (after (m w1)) (after (m w2))"
  using assms by (simp_all add: blind_def)

text \<open>A step that neither reads nor writes the state of the hook.\<close>

lemma blind_step:
  assumes "\<And>w h. outcome (m (w\<lparr>hook := h\<rparr>)) = outcome (m w)"
    and "\<And>w h. network_calls (events (m (w\<lparr>hook := h\<rparr>))) = network_calls (events (m w))"
    and "\<And>w h. after (m (w\<lparr>hook := h\<rparr>)) = (after (m w))\<lparr>hook := h\<rparr>"
  shows "blind m"
  using assms by (auto simp: blind_def alike_iff)

lemma blind_pure [simp]: "blind (io_return a)" "blind (io_throw e)" "blind (io_lift r)" "blind (sleep ms)"
  by (rule blind_step; simp)+

lemma blind_setState [simp]: "blind (setState upd)"
  by (auto simp: blind_def alike_iff)

lemma blind_getSigner [simp]: "blind getSigner"
  by (rule blind_step) simp_all

lemma blind_checkAllowance [simp]: "blind (checkAllowance t ow sp)"
  by (rule blind_step) (simp_all split: option.splits)

lemma blind_approveToken [simp]: "blind (approveToken t sp a)"
  by (rule blind_step) (simp_all split: approve_outcome.splits)

lemma blind_executeBridge [simp]: "blind (executeBridge r)"
  by (rule blind_step) simp_all

lemma blind_wait_mined [simp]: "blind (wait_mined h)"
  by (rule blind_step) simp_all

lemma blind_notify [simp]: "blind (notify cb st)"
  by (rule blind_step) (simp_all add: notify_def split: option.splits)

lemma blind_route_attempt [simp]: "blind (route_attempt p)"
  by (rule blind_step) (simp_all add: route_attempt_def Let_def split: fetched.splits body.splits)

lemma blind_status_attempt [simp]: "blind (status_attempt h q f t)"
  by (rule blind_step) (simp_all add: status_attempt_def Let_def split: fetched.splits body.splits)

lemma blind_bind:
  assumes "blind m" and "\<And>a. blind (f a)"
  shows "blind (io_bind m f)"
proof (rule blindI)
  fix w1 w2 assume a: "alike w1 w2"
  note M = blindD [OF assms(1) a]
  have F: "\<And>x. outcome (f x (after (m w1))) = outcome (f x (after (m w2)))"
    "\<And>x. network_calls (events (f x (after (m w1)))) = network_calls (events (f x (after (m w2))))"
    "\<And>x. alike (after (f x (after (m w1)))) (after (f x (after (m w2))))"
    using blindD [OF assms(2) M(3)] by auto
  show "outcome (io_bind m f w1) = outcome (io_bind m f w2)"
    using M F by (simp add: io_run split: sum.splits)
  show "network_calls (events (io_bind m f w1)) = network_calls (events (io_bind m f w2))"
    using M F by (simp add: io_run network_calls_append split: sum.splits)
  show "alike (after (io_bind m f w1)) (after (io_bind m f w2))"
    using M F by (simp add: io_run split: sum.splits)
qed

lemma blind_catch:
  assumes "blind m" and "\<And>e. blind (h e)"
  shows "blind (io_catch m h)"
proof (rule blindI)
  fix w1 w2 assume a: "alike w1 w2"
  note M = blindD [OF assms(1) a]
  have F: "\<And>x. outcome (h x (after (m w1))) = outcome (h x (after (m w2)))"
    "\<And>x. network_calls (events (h x (after (m w1)))) = network_calls (events (h x (after (m w2))))"
    "\<And>x. alike (after (h x (after (m w1)))) (after (h x (after (m w2))))"
    using blindD [OF assms(2) M(3)] by auto
  show "outcome (io_catch m h w1) = outcome (io_catch m h w2)"
    using M F by (simp add: io_run split: sum.splits)
  show "network_calls (events (io_catch m h w1)) = network_calls (events (io_catch m h w2))"
    using M F by (simp add: io_run network_calls_append split: sum.splits)
  show "alike (after (io_catch m h w1)) (after (io_catch m h w2))"
    using M F by (simp add: io_run split: sum.splits)
qed

lemma retry_loop_step:
  "a < m \<Longrightarrow>
     events (retry_loop fn m d a le s) =
       events (fn s) @
       (case outcome (fn s) of
          Inr v \<Rightarrow> []
        | Inl e \<Rightarrow>
            if \<not> isRetryable e \<or> a = m - 1 then []
            else Sleep (d * 2 ^ nat a) # events (retry_loop fn m d (a + 1) e (after (fn s))))"
  "a < m \<Longrightarrow>
     after (retry_loop fn m d a le s) =
       (case outcome (fn s) of
          Inr v \<Rightarrow> after (fn s)
        | Inl e \<Rightarrow>
            if \<not> isRetryable e \<or> a = m - 1 then after (fn s)
            else after (retry_loop fn m d (a + 1) e (after (fn s))))"
  by (cases "fn s"; cases "outcome (fn s)";
      cases "retry_loop fn m d (a + 1) (projl (outcome (fn s))) (after (fn s))";
      auto simp: retry_loop.simps [of fn m d a])+

lemma retry_loop_over:
  "\<not> a < m \<Longrightarrow> retry_loop fn m d a le s = (Inl le, [], s)"
  by (simp add: retry_loop.simps)

lemma blind_retry_loop:
  assumes "blind fn"
  shows "blind (retry_loop fn m d a le)"
proof -
  have "alike w1 w2 \<Longrightarrow>
       outcome (retry_loop fn m d a le w1) = outcome (retry_loop fn m d a le w2)
     \<and> network_calls (events (retry_loop fn m d a le w1))
         = network_calls (events (retry_loop fn m d a le w2))
     \<and> alike (after (retry_loop fn m d a le w1)) (after (retry_loop fn m d a le w2))"
    for w1 w2
  proof (induction "nat (m - a)" arbitrary: a le w1 w2)
    case 0
    then have "\<not> a < m" by simp
    with 0 show ?case by (simp add: retry_loop_over)
  next
    case (Suc n)
    then have a: "a < m" and n: "n = nat (m - (a + 1))" by simp_all
    note F = blindD [OF assms Suc.prems]
    show ?case
    proof (cases "outcome (fn w2)")
      case (Inr v)
      with a F show ?thesis
        by (simp add: retry_loop_outcome retry_loop_step network_calls_append)
    next
      case (Inl e)
      from Suc.hyps(1) [OF n F(3), of e] a F Inl show ?thesis
        by (simp add: retry_loop_outcome [of a m] retry_loop_step [of a m] network_calls_append)
    qed
  qed
  then show ?thesis by (simp add: blind_def)
qed

lemma blind_retryWithBackoff: "blind fn \<Longrightarrow> blind (retryWithBackoff fn m d)"
  by (simp add: retryWithBackoff_def blind_retry_loop)

lemma blind_getRoute [simp]: "blind (getRoute p)"
  by (auto simp: getRoute_def Let_def intro!: blind_bind blind_retryWithBackoff split: option.splits)

lemma blind_getTransactionStatus [simp]: "blind (getTransactionStatus h q f t)"
proof (rule blindI)
  fix w1 w2 assume a: "alike w1 w2"
  note R = blindD [OF blind_retryWithBackoff [OF blind_status_attempt, of h q f t 5 1000] a]
  from R show "outcome (getTransactionStatus h q f t w1) = outcome (getTransactionStatus h q f t w2)"
    by (cases "retryWithBackoff (status_attempt h q f t) 5 1000 w1";
        cases "retryWithBackoff (status_attempt h q f t) 5 1000 w2")
       (simp add: getTransactionStatus_def)
  from R show "network_calls (events (getTransactionStatus h q f t w1))
      = network_calls (events (getTransactionStatus h q f t w2))"
    by (cases "retryWithBackoff (status_attempt h q f t) 5 1000 w1";
        cases "retryWithBackoff (status_attempt h q f t) 5 1000 w2")
       (simp add: getTransactionStatus_def)
  from R show "alike (after (getTransactionStatus h q f t w1)) (after (getTransactionStatus h q f t w2))"
    by (cases "retryWithBackoff (status_attempt h q f t) 5 1000 w1";
        cases "retryWithBackoff (status_attempt h q f t) 5 1000 w2")
       (simp add: getTransactionStatus_def)
qed

lemma blind_poll_once [simp]: "blind (poll_once h q f t cb ival)"
  by (auto simp: poll_once_def intro!: blind_bind blind_catch)

lemma blind_monitor_loop: "blind (monitor_loop h q f t cb ival a)"
proof -
  have "alike w1 w2 \<Longrightarrow>
       outcome (monitor_loop h q f t cb ival a w1) = outcome (monitor_loop h q f t cb ival a w2)
     \<and> network_calls (events (monitor_loop h q f t cb ival a w1))
         = network_calls (events (monitor_loop h q f t cb ival a w2))
     \<and> alike (after (monitor_loop h q f t cb ival a w1)) (after (monitor_loop h q f t cb ival a w2))"
    for w1 w2
  proof (induction "maxAttempts - a" arbitrary: a w1 w2)
    case 0
    then show ?case by (simp add: monitor_loop_done)
  next
    case (Suc n)
    then have a: "a < maxAttempts" and n: "n = maxAttempts - Suc a" by simp_all
    note P = blindD [OF blind_poll_once Suc.prems, of h q f t cb ival]
    show ?case
    proof (cases rule: poll_once_outcome_cases [of h q f t cb ival w2])
      case (return st)
      with a P show ?thesis by (simp add: monitor_loop_return)
    next
      case continue
      from Suc.hyps(1) [OF n P(3)] a continue(1) P show ?thesis
        by (simp add: monitor_loop_continue network_calls_append)
    qed
  qed
  then show ?thesis by (simp add: blind_def)
qed

lemma blind_monitorTransaction [simp]: "blind (monitorTransaction h q f t cb ival)"
  by (auto simp: monitorTransaction_def intro!: blind_bind blind_monitor_loop)

lemma blind_bridge_catch [simp]: "blind (bridge_catch e)"
  by (cases e) (auto simp: bridge_catch_def Let_def intro!: blind_bind)

lemma blind_bridge_try: "blind (bridge_try wallet amount)"
  by (auto simp: bridge_try_def bridge_quote_def bridge_approve_def bridge_execute_def
        bridge_monitor_def ensure_allowance_def intro!: blind_bind)

text \<open>What the hook shows has no influence on what \<^verbatim>\<open>bridge\<close> does.\<close>

lemma blind_bridge: "blind (bridge amount)"
proof (rule blindI)
  fix w1 w2 assume a: "alike w1 w2"
  then obtain h where w1: "w1 = w2\<lparr>hook := h\<rparr>" by (auto simp: alike_iff)
  have b: "blind (io_bind
                (setState (\<lambda>prev. prev\<lparr>isLoading := True, error := None, status := Idle\<rparr>))
                (\<lambda>u. io_catch (bridge_try wallet amount) bridge_catch))" for wallet
    by (intro blind_bind blind_catch blind_bridge_try) simp_all
  note B = blindD [OF b a]
  show "outcome (bridge amount w1) = outcome (bridge amount w2)"
    using B(1) w1 by (simp add: bridge_def split: option.splits)
  show "network_calls (events (bridge amount w1)) = network_calls (events (bridge amount w2))"
    using B(2) w1 by (simp add: bridge_def split: option.splits)
  show "alike (after (bridge amount w1)) (after (bridge amount w2))"
    using B(3) w1 by (simp add: bridge_def split: option.splits)
qed

text \<open>
  C1, amended. The only guard of \<^verbatim>\<open>bridge\<close> is the wallet; the hook has no
  single-flight guard and no busy error. Without a connected wallet (or without
  \<^verbatim>\<open>window.ethereum\<close>) the call throws \<^verbatim>\<open>Error('Wallet not connected')\<close>, with
  no event at all and the world unchanged. With a wallet, whatever state the hook shows
  (also while an attempt is in flight), the call first overwrites the state with loading,
  no error, status \<^verbatim>\<open>idle\<close>, and asks the wallet for the signer. When the signer is
  given and the amount is a number, the next two events are the status set to
  \<^verbatim>\<open>idle\<close> again and the first request to the quote service, for the amount in
  smallest units, from and to the wallet address. When the signer is refused or the amount
  is not a number, the call throws and the call for the signer is its only network call.
  And the state the hook shows has no influence on the call: started from a world that
  differs only in that state, it ends with the same outcome after the same network calls.
\<close>

theorem bridge_only_wallet_guard:
  "(walletAddress w = None \<or> walletAddress w = Some [] \<or> \<not> ethereum w \<longrightarrow>
      bridge amount w = (Inl (new_Error ''Wallet not connected''), [], w))
   \<and> (walletAddress w = Some wallet \<and> wallet \<noteq> [] \<and> ethereum w \<longrightarrow>
      take 2 (events (bridge amount w)) =
        [SetState (hook w\<lparr>isLoading := True, error := None, status := Idle\<rparr>), GetSigner]
      \<and> (signer_results w 0 = None \<and> parseUnits amount TOKEN_DECIMALS_USDC = Inr a \<longrightarrow>
           take 4 (events (bridge amount w)) =
             [SetState (hook w\<lparr>isLoading := True, error := None, status := Idle\<rparr>), GetSigner,
              SetState (hook w\<lparr>isLoading := True, error := None, status := Idle\<rparr>),
              FetchRoute \<lparr>fromChain = CHAIN_IDS_BASE, toChain = CHAIN_IDS_POLYGON,
                          fromToken = TOKENS_USDC_BASE, toToken = TOKENS_USDC_POLYGON,
                          fromAmount = bigint_toString a,
                          fromAddress = wallet, toAddress = wallet,
                          slippage = 1, collectFees = None\<rparr>])
      \<and> (signer_results w 0 = Some e \<or> parseUnits amount TOKEN_DECIMALS_USDC = Inl e \<longrightarrow>
           (\<exists>e'. outcome (bridge amount w) = Inl e')
           \<and> network_calls (events (bridge amount w)) = [GetSigner]))
   \<and> outcome (bridge amount (w\<lparr>hook := h\<rparr>)) = outcome (bridge amount w)
   \<and> network_calls (events (bridge amount (w\<lparr>hook := h\<rparr>)))
       = network_calls (events (bridge amount w))"
proof (intro conjI impI)
  assume "walletAddress w = None \<or> walletAddress w = Some [] \<or> \<not> ethereum w"
  then show "bridge amount w = (Inl (new_Error ''Wallet not connected''), [], w)"
    by (auto simp: bridge_def io_throw_def split: option.splits)
next
  assume c: "walletAddress w = Some wallet \<and> wallet \<noteq> [] \<and> ethereum w"
  then show "take 2 (events (bridge amount w)) =
        [SetState (hook w\<lparr>isLoading := True, error := None, status := Idle\<rparr>), GetSigner]"
    by (auto simp: bridge_def io_run bridge_try_def split: option.splits sum.splits)
next
  let ?w1 = "w\<lparr>hook := hook w\<lparr>isLoading := True, error := None, status := Idle\<rparr>\<rparr>"
  let ?p = "\<lparr>fromChain = CHAIN_IDS_BASE, toChain = CHAIN_IDS_POLYGON,
                          fromToken = TOKENS_USDC_BASE, toToken = TOKENS_USDC_POLYGON,
                          fromAmount = bigint_toString a,
                          fromAddress = wallet, toAddress = wallet,
                          slippage = 1, collectFees = None\<rparr>"
  assume c: "walletAddress w = Some wallet \<and> wallet \<noteq> [] \<and> ethereum w"
    and s: "signer_results w 0 = None \<and> parseUnits amount TOKEN_DECIMALS_USDC = Inr a"
  obtain evs where g: "events (getRoute ?p
      (w\<lparr>signer_results := rest (signer_results w),
         hook := hook w\<lparr>isLoading := True, error := None, status := Idle\<rparr>\<rparr>))
      = FetchRoute ?p # evs"
    using getRoute_first by blast
  from c s g show "take 4 (events (bridge amount w)) =
             [SetState (hook w\<lparr>isLoading := True, error := None, status := Idle\<rparr>), GetSigner,
              SetState (hook w\<lparr>isLoading := True, error := None, status := Idle\<rparr>),
              FetchRoute ?p]"
    by (simp add: bridge_def io_run bridge_try_def bridge_quote_def)
next
  assume c: "walletAddress w = Some wallet \<and> wallet \<noteq> [] \<and> ethereum w"
    and s: "signer_results w 0 = Some e \<or> parseUnits amount TOKEN_DECIMALS_USDC = Inl e"
  let ?w1 = "w\<lparr>hook := hook w\<lparr>isLoading := True, error := None, status := Idle\<rparr>\<rparr>"
  from s have s1: "signer_results ?w1 0 = Some e \<or> parseUnits amount TOKEN_DECIMALS_USDC = Inl e"
    by simp
  from bridge_try_refused [OF s1, of wallet] obtain e' where
    o: "outcome (bridge_try wallet amount ?w1) = Inl e'"
    and n: "network_calls (events (bridge_try wallet amount ?w1)) = [GetSigner]"
    by blast
  from c o bridge_catch_throws [of e' "after (bridge_try wallet amount ?w1)"]
  show "\<exists>e'. outcome (bridge amount w) = Inl e'"
    by (simp add: bridge_def io_run)
  from c o n show "network_calls (events (bridge amount w)) = [GetSigner]"
    by (simp add: bridge_def io_run network_calls_append bridge_catch_network)
next
  show "outcome (bridge amount (w\<lparr>hook := h\<rparr>)) = outcome (bridge amount w)"
    by (rule blindD(1) [OF blind_bridge alike_hook])
next
  show "network_calls (events (bridge amount (w\<lparr>hook := h\<rparr>)))
       = network_calls (events (bridge amount w))"
    by (rule blindD(2) [OF blind_bridge alike_hook])
qed

theorem bridge_only_wallet_guard_witness:
  "bridge ''10'' disconnected_world
     = (Inl (new_Error ''Wallet not connected''), [], disconnected_world)
   \<and> status (hook busy_world) = Approving
   \<and> take 4 (events (bridge ''10'' busy_world)) =
        [SetState (hook busy_world\<lparr>isLoading := True, error := None, status := Idle\<rparr>),
         GetSigner,
         SetState (hook busy_world\<lparr>isLoading := True, error := None, status := Idle\<rparr>),
         FetchRoute \<lparr>fromChain = CHAIN_IDS_BASE, toChain = CHAIN_IDS_POLYGON,
                     fromToken = TOKENS_USDC_BASE, toToken = TOKENS_USDC_POLYGON,
                     fromAmount = ''10000000'',
                     fromAddress = ''0xAlice'', toAddress = ''0xAlice'',
                     slippage = 1, collectFees = None\<rparr>]
   \<and> status (hook refusing_world) = Approving
   \<and> network_calls (events (bridge ''10'' refusing_world)) = [GetSigner]
   \<and> outcome (bridge ''10'' busy_world) = outcome (bridge ''10'' good_world)
   \<and> network_calls (events (bridge ''10'' busy_world))
       = network_calls (events (bridge ''10'' good_world))"
proof -
  let ?e = "JsError None (Some (NumCode 4001)) ''User rejected the request''"
  let ?h = "idle_state\<lparr>isLoading := True, status := Approving\<rparr>"
  note D = bridge_only_wallet_guard [where w = disconnected_world and amount = "''10''"
      and wallet = "''0xAlice''" and a = 10000000 and e = Undefined and h = ?h]
  note B = bridge_only_wallet_guard [where w = busy_world and amount = "''10''"
      and wallet = "''0xAlice''" and a = 10000000 and e = Undefined and h = ?h]
  note R = bridge_only_wallet_guard [where w = refusing_world and amount = "''10''"
      and wallet = "''0xAlice''" and a = 10000000 and e = ?e and h = ?h]
  note G = bridge_only_wallet_guard [where w = good_world and amount = "''10''"
      and wallet = "''0xAlice''" and a = 10000000 and e = Undefined and h = ?h]
  have "bridge ''10'' disconnected_world
     = (Inl (new_Error ''Wallet not connected''), [], disconnected_world)"
    using D [THEN conjunct1] by (simp add: disconnected_world_def)
  moreover have "status (hook busy_world) = Approving" "status (hook refusing_world) = Approving"
    by (simp_all add: busy_world_def refusing_world_def idle_state_def)
  moreover have "take 4 (events (bridge ''10'' busy_world)) =
        [SetState (hook busy_world\<lparr>isLoading := True, error := None, status := Idle\<rparr>),
         GetSigner,
         SetState (hook busy_world\<lparr>isLoading := True, error := None, status := Idle\<rparr>),
         FetchRoute \<lparr>fromChain = CHAIN_IDS_BASE, toChain = CHAIN_IDS_POLYGON,
                     fromToken = TOKENS_USDC_BASE, toToken = TOKENS_USDC_POLYGON,
                     fromAmount = ''10000000'',
                     fromAddress = ''0xAlice'', toAddress = ''0xAlice'',
                     slippage = 1, collectFees = None\<rparr>]"
    using B [THEN conjunct2, THEN conjunct1]
    by (simp add: busy_world_def good_world_def parseUnits_10 toString_10)
  moreover have "network_calls (events (bridge ''10'' refusing_world)) = [GetSigner]"
    using R [THEN conjunct2, THEN conjunct1]
    by (simp add: refusing_world_def busy_world_def good_world_def)
  moreover have "outcome (bridge ''10'' busy_world) = outcome (bridge ''10'' good_world)"
    "network_calls (events (bridge ''10'' busy_world))
       = network_calls (events (bridge ''10'' good_world))"
    using G [THEN conjunct2, THEN conjunct2] by (simp_all add: busy_world_def)
  ultimately show ?thesis by simp
qed

lemma BigInt_5: "BigInt ''5000000'' = Inr 5000000"
  by (simp add: BigInt_def StrIntegerLiteral_def trim_def is_space_def literal_val_def)

lemma bridge_half_world:
  "outcome (bridge ''10'' half_world) = Inr (''0xb1'', transfer_status ''success'')"
  "approvals (events (bridge ''10'' half_world)) =
     [(TOKENS_USDC_BASE, ''0xce16F69375520ab01377ce7B88f5BA8C48F8D666'', 5000000)]"
  "quotes (events (bridge ''10'' half_world)) =
     [\<lparr>fromChain = CHAIN_IDS_BASE, toChain = CHAIN_IDS_POLYGON,
       fromToken = TOKENS_USDC_BASE, toToken = TOKENS_USDC_POLYGON,
       fromAmount = ''10000000'', fromAddress = ''0xAlice'', toAddress = ''0xAlice'',
       slippage = 1, collectFees = None\<rparr>]"
  by (simp_all add: run_defs good_defs half_world_def BigInt_5)

text \<open>
  C2 as stated fails twice. In a run from amount 10 and allowance 0 in which every step
  succeeds the hook never shows a status \<^verbatim>\<open>quoting\<close> or \<^verbatim>\<open>executing\<close>: the quote
  is fetched under the status \<^verbatim>\<open>idle\<close> and the transaction is sent under
  \<^verbatim>\<open>bridging\<close>. And the amount approved is the amount of the plan the quote service
  returned, not the amount asked for: when the service answers the request for 10000000
  with a plan for 5000000, the run succeeds with one approval of 5000000.
\<close>

theorem bridge_status_sequence_counterexample:
  "outcome (bridge ''10'' good_world) = Inr (''0xb1'', transfer_status ''success'')
   \<and> allowances good_world (TOKENS_USDC_BASE, ''0xAlice'', target (transactionRequest (plan ''10000000''))) = 0
   \<and> map status_name (observed_statuses (events (bridge ''10'' good_world)))
       = [''idle'', ''approving'', ''bridging'', ''monitoring'', ''success'']
   \<and> map status_name (observed_statuses (events (bridge ''10'' good_world)))
       \<noteq> [''quoting'', ''approving'', ''executing'', ''monitoring'', ''success'']
   \<and> outcome (bridge ''10'' half_world) = Inr (''0xb1'', transfer_status ''success'')
   \<and> allowances half_world (TOKENS_USDC_BASE, ''0xAlice'', target (transactionRequest (plan ''5000000''))) = 0
   \<and> map fromAmount (quotes (events (bridge ''10'' half_world))) = [''10000000'']
   \<and> approvals (events (bridge ''10'' half_world))
       = [(TOKENS_USDC_BASE, target (transactionRequest (plan ''5000000'')), 5000000)]
   \<and> approvals (events (bridge ''10'' half_world))
       \<noteq> [(TOKENS_USDC_BASE, target (transactionRequest (plan ''5000000'')), 10000000)]"
proof -
  have "outcome (bridge ''10'' good_world) = Inr (''0xb1'', transfer_status ''success'')
   \<and> allowances good_world (TOKENS_USDC_BASE, ''0xAlice'', target (transactionRequest (plan ''10000000''))) = 0
   \<and> map status_name (observed_statuses (events (bridge ''10'' good_world)))
       = [''idle'', ''approving'', ''bridging'', ''monitoring'', ''success'']
   \<and> map status_name (observed_statuses (events (bridge ''10'' good_world)))
       \<noteq> [''quoting'', ''approving'', ''executing'', ''monitoring'', ''success'']"
    by (simp add: run_defs good_defs)
  moreover have "allowances half_world (TOKENS_USDC_BASE, ''0xAlice'', target (transactionRequest (plan ''5000000''))) = 0"
    by (simp add: half_world_def good_world_def)
  ultimately show ?thesis using bridge_half_world by (simp add: plan_def)
qed

text \<open>
  C2, amended. In every run of \<^verbatim>\<open>bridge\<close> started with amount "10" that returns (every
  step succeeded), from a wallet whose allowance is 0: the status values the hook shows
  are exactly idle, approving, bridging, monitoring, success; every request to the quote
  service, and there is one, asks for the amount 10000000 from and to the wallet; the
  plan \<open>r\<close> the hook has stored is the route of a success response of the quote service;
  exactly one transaction is sent, the plan's; and the approval follows the plan, not
  the request: with \<open>a\<close> the amount the plan carries, exactly one approval is asked
  for, of the plan's target for \<open>a\<close>, when \<open>a\<close> is positive, and none otherwise.
  So when the plan repeats the requested amount 10000000 there is exactly one approval,
  for 10000000.
\<close>

theorem bridge_happy_path:
  assumes run: "outcome (bridge ''10'' w) = Inr res"
    and wallet: "walletAddress w = Some wallet"
    and zero: "\<forall>sp. allowances w (TOKENS_USDC_BASE, wallet, sp) = 0"
  shows "\<exists>r a. route (hook (after (bridge ''10'' w))) = Some r
     \<and> (\<exists>k<5. \<exists>st j. route_http w k = Response st (Json j) \<and> res_ok st
            \<and> json_route j = Some r)
     \<and> BigInt (fromAmount (params r)) = Inr a
     \<and> map status_name (observed_statuses (events (bridge ''10'' w)))
           = [''idle'', ''approving'', ''bridging'', ''monitoring'', ''success'']
     \<and> set (quotes (events (bridge ''10'' w))) =
           {\<lparr>fromChain = CHAIN_IDS_BASE, toChain = CHAIN_IDS_POLYGON,
             fromToken = TOKENS_USDC_BASE, toToken = TOKENS_USDC_POLYGON,
             fromAmount = ''10000000'', fromAddress = wallet, toAddress = wallet,
             slippage = 1, collectFees = None\<rparr>}
     \<and> approvals (events (bridge ''10'' w))
           = (if 0 < a then [(TOKENS_USDC_BASE, target (transactionRequest r), a)] else [])
     \<and> sent (events (bridge ''10'' w)) = [sent_transaction r]
     \<and> (fromAmount (params r) = ''10000000'' \<longrightarrow>
          approvals (events (bridge ''10'' w))
            = [(TOKENS_USDC_BASE, target (transactionRequest r), 10000000)])"
proof -
  let ?w1 = "w\<lparr>hook := hook w\<lparr>isLoading := True, error := None, status := Idle\<rparr>\<rparr>"
  from run wallet have conn: "wallet \<noteq> []" "ethereum w"
    by (auto simp: bridge_def split: if_splits)
  have ev: "events (bridge ''10'' w) =
      SetState (hook w\<lparr>isLoading := True, error := None, status := Idle\<rparr>)
      # events (io_catch (bridge_try wallet ''10'') bridge_catch ?w1)"
    and out: "outcome (bridge ''10'' w) = outcome (io_catch (bridge_try wallet ''10'') bridge_catch ?w1)"
    and aft: "after (bridge ''10'' w) = after (io_catch (bridge_try wallet ''10'') bridge_catch ?w1)"
    using wallet conn by (simp_all add: bridge_def io_run)
  have tr: "outcome (bridge_try wallet ''10'' ?w1) = Inr res"
  proof (cases "outcome (bridge_try wallet ''10'' ?w1)")
    case (Inl e)
    with run out bridge_catch_throws [of e "after (bridge_try wallet ''10'' ?w1)"]
    show ?thesis by (auto simp: outcome_io_catch)
  next
    case (Inr x)
    with run out show ?thesis by (simp add: outcome_io_catch)
  qed
  from tr have ev2: "events (bridge ''10'' w) =
      SetState (hook w\<lparr>isLoading := True, error := None, status := Idle\<rparr>)
      # events (bridge_try wallet ''10'' ?w1)"
    and aft2: "after (bridge ''10'' w) = after (bridge_try wallet ''10'' ?w1)"
    using ev aft by (simp_all add: events_io_catch after_io_catch)
  from bridge_try_success [OF tr] obtain r a b where
    r: "route (hook (after (bridge_try wallet ''10'' ?w1))) = Some r"
    and a: "BigInt (fromAmount (params r)) = Inr a"
    and b: "parseUnits ''10'' TOKEN_DECIMALS_USDC = Inr b"
    and qs: "set (quotes (events (bridge_try wallet ''10'' ?w1))) =
             {\<lparr>fromChain = CHAIN_IDS_BASE, toChain = CHAIN_IDS_POLYGON,
               fromToken = TOKENS_USDC_BASE, toToken = TOKENS_USDC_POLYGON,
               fromAmount = bigint_toString b, fromAddress = wallet, toAddress = wallet,
               slippage = 1, collectFees = None\<rparr>}"
    and st: "map status (states (events (bridge_try wallet ''10'' ?w1))) =
         [Idle, Idle, Approving, Bridging, Bridging, Monitoring, Success]"
    and ap: "approvals (events (bridge_try wallet ''10'' ?w1)) =
         (if allowances ?w1 (TOKENS_USDC_BASE, wallet, target (transactionRequest r)) < a
          then [(TOKENS_USDC_BASE, target (transactionRequest r), a)] else [])"
    and se: "sent (events (bridge_try wallet ''10'' ?w1)) = [sent_transaction r]"
    by (elim exE conjE)
  from bridge_try_source [OF tr r]
  have src: "\<exists>k<5. \<exists>st j. route_http w k = Response st (Json j) \<and> res_ok st
            \<and> json_route j = Some r"
    by simp
  from b have b10: "b = 10000000" by (simp add: parseUnits_10)
  have c1: "route (hook (after (bridge ''10'' w))) = Some r"
    using r by (simp add: aft2)
  have c4: "map status_name (observed_statuses (events (bridge ''10'' w)))
           = [''idle'', ''approving'', ''bridging'', ''monitoring'', ''success'']"
    using st by (simp add: ev2)
  have c5: "set (quotes (events (bridge ''10'' w))) =
           {\<lparr>fromChain = CHAIN_IDS_BASE, toChain = CHAIN_IDS_POLYGON,
             fromToken = TOKENS_USDC_BASE, toToken = TOKENS_USDC_POLYGON,
             fromAmount = ''10000000'', fromAddress = wallet, toAddress = wallet,
             slippage = 1, collectFees = None\<rparr>}"
    using qs b10 by (simp add: ev2 toString_10)
  have c6: "approvals (events (bridge ''10'' w))
           = (if 0 < a then [(TOKENS_USDC_BASE, target (transactionRequest r), a)] else [])"
    using ap zero by (simp add: ev2)
  have c7: "sent (events (bridge ''10'' w)) = [sent_transaction r]"
    using se by (simp add: ev2)
  have c8: "fromAmount (params r) = ''10000000'' \<longrightarrow>
          approvals (events (bridge ''10'' w))
            = [(TOKENS_USDC_BASE, target (transactionRequest r), 10000000)]"
  proof
    assume "fromAmount (params r) = ''10000000''"
    with a have "a = 10000000" by (simp add: BigInt_10)
    with c6 show "approvals (events (bridge ''10'' w))
            = [(TOKENS_USDC_BASE, target (transactionRequest r), 10000000)]"
      by simp
  qed
  from c1 src a c4 c5 c6 c7 c8 show ?thesis
    by (intro exI [of _ r] exI [of _ a] conjI)
qed

section \<open>Witnesses of the hook's theorems\<close>

lemma bridge_good_world_statuses:
  "observed_statuses (events (bridge ''10'' good_world))
     = [Idle, Approving, Bridging, Monitoring, Success]"
  by (simp add: run_defs good_defs)

theorem bridge_happy_path_witness:
  "outcome (bridge ''10'' good_world) = Inr (''0xb1'', transfer_status ''success'')
   \<and> walletAddress good_world = Some ''0xAlice''
   \<and> route (hook (after (bridge ''10'' good_world))) = Some (plan ''10000000'')
   \<and> fromAmount (params (plan ''10000000'')) = ''10000000''
   \<and> map status_name (observed_statuses (events (bridge ''10'' good_world)))
        = [''idle'', ''approving'', ''bridging'', ''monitoring'', ''success'']
   \<and> approvals (events (bridge ''10'' good_world))
        = [(TOKENS_USDC_BASE, target (transactionRequest (plan ''10000000'')), 10000000)]
   \<and> sent (events (bridge ''10'' good_world)) = [sent_transaction (plan ''10000000'')]"
proof -
  have w: "walletAddress good_world = Some ''0xAlice''"
    and z: "\<forall>sp. allowances good_world (TOKENS_USDC_BASE, ''0xAlice'', sp) = 0"
    and e: "fromAmount (params (plan ''10000000'')) = ''10000000''"
    by (simp_all add: good_world_def plan_def)
  from bridge_happy_path [OF bridge_good_world(1) w z]
  obtain r where r: "route (hook (after (bridge ''10'' good_world))) = Some r"
    and st: "map status_name (observed_statuses (events (bridge ''10'' good_world)))
        = [''idle'', ''approving'', ''bridging'', ''monitoring'', ''success'']"
    and se: "sent (events (bridge ''10'' good_world)) = [sent_transaction r]"
    and ap: "fromAmount (params r) = ''10000000'' \<longrightarrow>
          approvals (events (bridge ''10'' good_world))
            = [(TOKENS_USDC_BASE, target (transactionRequest r), 10000000)]"
    by (elim exE conjE)
  from r bridge_good_world(2) have "r = plan ''10000000''" by simp
  with st se ap e w bridge_good_world show ?thesis by simp
qed

theorem bridge_sequenced_witness:
  "sequenced ''0xAlice'' [] (events (bridge ''10'' good_world))
   \<and> Bridging \<in> set (observed_statuses (events (bridge ''10'' good_world)))
   \<and> Monitoring \<in> set (observed_statuses (events (bridge ''10'' good_world)))"
  using bridge_sequenced [of good_world "''10''"] bridge_good_world_statuses
  by (simp add: good_world_def)

section \<open>The allowance step\<close>

text \<open>
  C4 as stated fails: two runs of the step in succession, for the same amount, can ask for
  two approvals. When the first approval reverts, the first run throws after having
  submitted it and the second run submits another; and when the account that signs is not
  the address whose allowance is read, both runs complete and both submit an approval.
\<close>

theorem ensure_allowance_twice_counterexample:
  "outcome (ensure_allowance ''0xAlice'' (plan ''10000000'') reverting_world)
     = Inl (JsError None (Some (StrCode ''CALL_EXCEPTION'')) ''transaction execution reverted'')
   \<and> approvals (events (ensure_allowance ''0xAlice'' (plan ''10000000'') reverting_world))
       = [(TOKENS_USDC_BASE, ''0xce16F69375520ab01377ce7B88f5BA8C48F8D666'', 10000000)]
   \<and> approvals (events (ensure_allowance ''0xAlice'' (plan ''10000000'')
         (after (ensure_allowance ''0xAlice'' (plan ''10000000'') reverting_world))))
       = [(TOKENS_USDC_BASE, ''0xce16F69375520ab01377ce7B88f5BA8C48F8D666'', 10000000)]
   \<and> walletAddress other_signer_world = Some ''0xAlice''
   \<and> outcome (ensure_allowance ''0xAlice'' (plan ''10000000'') other_signer_world) = Inr ()
   \<and> approvals (events (ensure_allowance ''0xAlice'' (plan ''10000000'') other_signer_world))
       = [(TOKENS_USDC_BASE, ''0xce16F69375520ab01377ce7B88f5BA8C48F8D666'', 10000000)]
   \<and> approvals (events (ensure_allowance ''0xAlice'' (plan ''10000000'')
         (after (ensure_allowance ''0xAlice'' (plan ''10000000'') other_signer_world))))
       = [(TOKENS_USDC_BASE, ''0xce16F69375520ab01377ce7B88f5BA8C48F8D666'', 10000000)]"
  by (simp add: run_defs good_defs reverting_world_def other_signer_world_def
        TOKENS_USDC_BASE_def)

text \<open>
  C4, amended. In the allowance step of \<^verbatim>\<open>bridge\<close>, for a plan whose amount is \<open>a\<close>:
  when the allowance of the wallet for the plan's target covers \<open>a\<close>, the step is the one
  read, no approval is asked for and the allowances stay as they are; when the allowance
  read is below \<open>a\<close>, exactly one approval is asked for, of the target, for exactly
  \<open>a\<close>; no run asks for more than one approval, nor for one of another amount. When
  the step has completed and the signing account is the wallet address, running it again
  asks for no approval, so that the two runs ask for at most one. When the allowance read
  is below \<open>a\<close> and the approval is refused or reverts, or the signing account is
  another one, the second run (its read succeeding) asks for a second approval.
\<close>

theorem ensure_allowance_policy:
  assumes amt: "BigInt (fromAmount (params r)) = Inr a"
  shows
  "(a \<le> allowances w (TOKENS_USDC_BASE, wallet, target (transactionRequest r)) \<longrightarrow>
      events (ensure_allowance wallet r w) =
        [AllowanceRead TOKENS_USDC_BASE wallet (target (transactionRequest r))
           (outcome (checkAllowance TOKENS_USDC_BASE wallet (target (transactionRequest r)) w))]
      \<and> approvals (events (ensure_allowance wallet r w)) = []
      \<and> allowances (after (ensure_allowance wallet r w)) = allowances w)
   \<and> (allowances w (TOKENS_USDC_BASE, wallet, target (transactionRequest r)) < a
        \<and> allowance_results w 0 = None \<longrightarrow>
      approvals (events (ensure_allowance wallet r w)) =
        [(TOKENS_USDC_BASE, target (transactionRequest r), a)])
   \<and> (approvals (events (ensure_allowance wallet r w)) = []
        \<or> approvals (events (ensure_allowance wallet r w)) =
             [(TOKENS_USDC_BASE, target (transactionRequest r), a)])
   \<and> (outcome (ensure_allowance wallet r w) = Inr u \<and> signer_address w = wallet \<longrightarrow>
      approvals (events (ensure_allowance wallet r (after (ensure_allowance wallet r w)))) = []
      \<and> length (approvals (events (ensure_allowance wallet r w))
           @ approvals (events (ensure_allowance wallet r (after (ensure_allowance wallet r w)))))
         \<le> 1)
   \<and> (allowances w (TOKENS_USDC_BASE, wallet, target (transactionRequest r)) < a
        \<and> allowance_results w 0 = None \<and> allowance_results w 1 = None
        \<and> (approve_results w 0 \<noteq> ApproveMined \<or> signer_address w \<noteq> wallet) \<longrightarrow>
      approvals (events (ensure_allowance wallet r w))
        @ approvals (events (ensure_allowance wallet r (after (ensure_allowance wallet r w))))
      = [(TOKENS_USDC_BASE, target (transactionRequest r), a),
         (TOKENS_USDC_BASE, target (transactionRequest r), a)])"
  using amt
  by (auto simp: ensure_allowance_def io_run
           split: sum.splits option.splits approve_outcome.splits if_splits)

lemma ensure_allowance_good_world:
  "outcome (ensure_allowance ''0xAlice'' (plan ''10000000'') good_world) = Inr ()"
  by (simp add: run_defs good_defs)

theorem ensure_allowance_policy_witness:
  "events (ensure_allowance ''0xAlice'' (plan ''10000000'') approved_world) =
     [AllowanceRead TOKENS_USDC_BASE ''0xAlice'' ''0xce16F69375520ab01377ce7B88f5BA8C48F8D666''
        (Inr 10000000)]
   \<and> approvals (events (ensure_allowance ''0xAlice'' (plan ''10000000'') good_world)) =
        [(TOKENS_USDC_BASE, ''0xce16F69375520ab01377ce7B88f5BA8C48F8D666'', 10000000)]
   \<and> approvals (events (ensure_allowance ''0xAlice'' (plan ''10000000'')
        (after (ensure_allowance ''0xAlice'' (plan ''10000000'') good_world)))) = []
   \<and> approvals (events (ensure_allowance ''0xAlice'' (plan ''10000000'') reverting_world))
      @ approvals (events (ensure_allowance ''0xAlice'' (plan ''10000000'')
          (after (ensure_allowance ''0xAlice'' (plan ''10000000'') reverting_world))))
      = [(TOKENS_USDC_BASE, ''0xce16F69375520ab01377ce7B88f5BA8C48F8D666'', 10000000),
         (TOKENS_USDC_BASE, ''0xce16F69375520ab01377ce7B88f5BA8C48F8D666'', 10000000)]
   \<and> approvals (events (ensure_allowance ''0xAlice'' (plan ''10000000'') other_signer_world))
      @ approvals (events (ensure_allowance ''0xAlice'' (plan ''10000000'')
          (after (ensure_allowance ''0xAlice'' (plan ''10000000'') other_signer_world))))
      = [(TOKENS_USDC_BASE, ''0xce16F69375520ab01377ce7B88f5BA8C48F8D666'', 10000000),
         (TOKENS_USDC_BASE, ''0xce16F69375520ab01377ce7B88f5BA8C48F8D666'', 10000000)]"
proof -
  let ?t = "''0xce16F69375520ab01377ce7B88f5BA8C48F8D666''"
  have amt: "BigInt (fromAmount (params (plan ''10000000''))) = Inr 10000000"
    by (simp add: plan_def BigInt_10)
  have tg: "target (transactionRequest (plan ''10000000'')) = ?t"
    by (simp add: plan_def)
  note A = ensure_allowance_policy [OF amt, of approved_world "''0xAlice''" "()"]
  note G = ensure_allowance_policy [OF amt, of good_world "''0xAlice''" "()"]
  note R = ensure_allowance_policy [OF amt, of reverting_world "''0xAlice''" "()"]
  note S = ensure_allowance_policy [OF amt, of other_signer_world "''0xAlice''" "()"]
  have "events (ensure_allowance ''0xAlice'' (plan ''10000000'') approved_world) =
     [AllowanceRead TOKENS_USDC_BASE ''0xAlice'' ?t (Inr 10000000)]"
    using A [THEN conjunct1] by (simp add: tg approved_world_def good_world_def)
  moreover have "approvals (events (ensure_allowance ''0xAlice'' (plan ''10000000'') good_world)) =
        [(TOKENS_USDC_BASE, ?t, 10000000)]"
    using G [THEN conjunct2, THEN conjunct1] by (simp add: tg good_world_def)
  moreover have "approvals (events (ensure_allowance ''0xAlice'' (plan ''10000000'')
        (after (ensure_allowance ''0xAlice'' (plan ''10000000'') good_world)))) = []"
    using G [THEN conjunct2, THEN conjunct2, THEN conjunct2, THEN conjunct1]
      ensure_allowance_good_world
    by (simp add: good_world_def)
  moreover have "approvals (events (ensure_allowance ''0xAlice'' (plan ''10000000'') reverting_world))
      @ approvals (events (ensure_allowance ''0xAlice'' (plan ''10000000'')
          (after (ensure_allowance ''0xAlice'' (plan ''10000000'') reverting_world))))
      = [(TOKENS_USDC_BASE, ?t, 10000000), (TOKENS_USDC_BASE, ?t, 10000000)]"
    using R [THEN conjunct2, THEN conjunct2, THEN conjunct2, THEN conjunct2]
    by (simp add: tg reverting_world_def good_world_def)
  moreover have "approvals (events (ensure_allowance ''0xAlice'' (plan ''10000000'') other_signer_world))
      @ approvals (events (ensure_allowance ''0xAlice'' (plan ''10000000'')
          (after (ensure_allowance ''0xAlice'' (plan ''10000000'') other_signer_world))))
      = [(TOKENS_USDC_BASE, ?t, 10000000), (TOKENS_USDC_BASE, ?t, 10000000)]"
    using S [THEN conjunct2, THEN conjunct2, THEN conjunct2, THEN conjunct2]
    by (simp add: tg other_signer_world_def good_world_def)
  ultimately show ?thesis by simp
qed

section \<open>The bridge transaction\<close>

text \<open>
  C7 as stated fails: \<^verbatim>\<open>executeBridge\<close> never passes the plan's \<^verbatim>\<open>gasPrice\<close> on.
  For a plan with a legacy gas price only, the transaction sent has the plan's target,
  data, value and gas limit and no price; for a plan with all three price fields it has
  the two fee fields and not the gas price.
\<close>

theorem executeBridge_gasPrice_counterexample:
  "gasPrice (transactionRequest legacy_plan) = Some ''12000000''
   \<and> events (executeBridge legacy_plan good_world) =
       [SendTransaction
          \<lparr>sent_to = ''0xce16F69375520ab01377ce7B88f5BA8C48F8D666'', sent_data = ''0x846a1bc6'',
           sent_value = ''0'', sent_gasLimit = ''600000'', sent_gasPrice = None,
           sent_maxFeePerGas = None, sent_maxPriorityFeePerGas = None\<rparr>
          (Inr ''0xb1'')]
   \<and> gasPrice (transactionRequest (plan ''10000000'')) = Some ''12000000''
   \<and> events (executeBridge (plan ''10000000'') good_world) =
       [SendTransaction
          \<lparr>sent_to = ''0xce16F69375520ab01377ce7B88f5BA8C48F8D666'', sent_data = ''0x846a1bc6'',
           sent_value = ''0'', sent_gasLimit = ''600000'', sent_gasPrice = None,
           sent_maxFeePerGas = Some ''15000000'', sent_maxPriorityFeePerGas = Some ''1000000''\<rparr>
          (Inr ''0xb1'')]"
  by (simp add: legacy_plan_def plan_def sent_transaction_def when_truthy_def good_world_def)

text \<open>
  C7, amended. For every plan \<^verbatim>\<open>executeBridge\<close> hands the wallet exactly one
  transaction and returns what the wallet answers: its \<^verbatim>\<open>to\<close>, \<^verbatim>\<open>data\<close>,
  \<^verbatim>\<open>value\<close> and \<^verbatim>\<open>gasLimit\<close> are the plan's target, data, value and gas limit as
  they are; its \<^verbatim>\<open>maxFeePerGas\<close> and \<^verbatim>\<open>maxPriorityFeePerGas\<close> are the plan's when
  the plan has them and they are not empty, and left out otherwise; and it never has a
  \<^verbatim>\<open>gasPrice\<close>, whatever the plan says.
\<close>

theorem executeBridge_fields:
  "events (executeBridge r w) =
     [SendTransaction
        \<lparr>sent_to = target (transactionRequest r), sent_data = data (transactionRequest r),
         sent_value = tx_value (transactionRequest r),
         sent_gasLimit = gasLimit (transactionRequest r),
         sent_gasPrice = None,
         sent_maxFeePerGas =
           (if maxFeePerGas (transactionRequest r) = Some [] then None
            else maxFeePerGas (transactionRequest r)),
         sent_maxPriorityFeePerGas =
           (if maxPriorityFeePerGas (transactionRequest r) = Some [] then None
            else maxPriorityFeePerGas (transactionRequest r))\<rparr>
        (send_results w 0)]
   \<and> outcome (executeBridge r w) = send_results w 0"
  by (simp add: sent_transaction_def when_truthy_def Let_def split: option.splits)

section \<open>Polls and HTTP requests\<close>

lemma status_attempt_requests: "requests (events (status_attempt h q f t w)) \<le> 1"
  by (simp add: status_attempt_def Let_def split: fetched.splits body.splits)

lemma getTransactionStatus_requests: "requests (events (getTransactionStatus h q f t w)) \<le> 5"
proof -
  have "requests (events (retryWithBackoff (status_attempt h q f t) 5 1000 w)) \<le> nat (5 - 0)"
    unfolding retryWithBackoff_def
  proof (rule retry_loop_requests)
    show "requests (events (status_attempt h q f t s)) \<le> 1" for s
      by (rule status_attempt_requests)
  qed
  then show ?thesis
    by (cases "retryWithBackoff (status_attempt h q f t) 5 1000 w")
       (simp add: getTransactionStatus_def)
qed

lemma requests_notified [simp]: "requests (notified cb r) = 0"
  by (simp add: notified_def split: option.splits sum.splits)

lemma poll_once_requests: "requests (events (poll_once h q f t cb ival w)) \<le> 5"
  using getTransactionStatus_requests [of h q f t w]
  by (simp add: poll_once_events split: sum.splits loop_step.splits)

lemma monitor_loop_requests:
  "requests (events (monitor_loop h q f t cb ival a w)) \<le> 5 * (maxAttempts - a)"
proof (induction "maxAttempts - a" arbitrary: a w)
  case 0
  then show ?case by (simp add: monitor_loop_done)
next
  case (Suc n)
  then have a: "a < maxAttempts" and n: "n = maxAttempts - Suc a" by simp_all
  show ?case
  proof (cases rule: poll_once_outcome_cases [of h q f t cb ival w])
    case (return st)
    with a poll_once_requests [of h q f t cb ival w] show ?thesis
      by (simp add: monitor_loop_return)
  next
    case continue
    from Suc.hyps(1) [OF n, of "after (poll_once h q f t cb ival w)"] a continue(1)
      poll_once_requests [of h q f t cb ival w] Suc.hyps(2)
    show ?thesis by (simp add: monitor_loop_continue)
  qed
qed

text \<open>
  A poll is one invocation of \<^verbatim>\<open>getTransactionStatus\<close>, which retries its request under
  the retry policy: the monitor makes at most 60 polls and at most 300 HTTP requests.
\<close>

lemma monitorTransaction_requests:
  "requests (events (monitorTransaction h q f t cb ival w)) \<le> 300"
  using monitor_loop_requests [of h q f t cb ival 0 w]
  by (simp add: monitorTransaction_unfold maxAttempts_def)

lemma isRetryable_connection_reset [simp]: "isRetryable connection_reset"
  by (simp add: isRetryable_def connection_reset_def)

lemma getTransactionStatus_flaky_world:
  "getTransactionStatus h q f t flaky_world =
     (Inl connection_reset,
      [StatusPoll h q f t, FetchStatus h q f t, Sleep 1000, FetchStatus h q f t, Sleep 2000,
       FetchStatus h q f t, Sleep 4000, FetchStatus h q f t, Sleep 8000, FetchStatus h q f t],
      flaky_world)"
  by (simp add: getTransactionStatus_def retryWithBackoff_def retry_loop.simps status_attempt_def
        flaky_world_def)

lemma monitor_loop_flaky_world:
  "requests (events (monitor_loop h q f t cb ival a flaky_world)) = 5 * (maxAttempts - a)
   \<and> polls (events (monitor_loop h q f t cb ival a flaky_world)) = maxAttempts - a"
proof (induction "maxAttempts - a" arbitrary: a)
  case 0
  then show ?case by (simp add: monitor_loop_done)
next
  case (Suc n)
  then have a: "a < maxAttempts" and n: "n = maxAttempts - Suc a" by simp_all
  have o: "outcome (poll_once h q f t cb ival flaky_world) = Inr Continue"
    by (simp add: poll_once_outcome getTransactionStatus_flaky_world)
  from Suc.hyps(1) [OF n] a o Suc.hyps(2) show ?case
    by (auto simp: monitor_loop_continue poll_once_events poll_once_after
          getTransactionStatus_flaky_world)
qed

text \<open>With every request failing on a reset connection the 60 polls make 300 requests.\<close>

lemma monitorTransaction_flaky_world:
  "requests (events (monitorTransaction h q f t cb ival flaky_world)) = 300
   \<and> polls (events (monitorTransaction h q f t cb ival flaky_world)) = 60"
  using monitor_loop_flaky_world [of h q f t cb ival 0]
  by (simp add: monitorTransaction_unfold maxAttempts_def)

text \<open>
  Step 2 leaves the allowance sufficient on the chain when the signer is the connected
  wallet.
\<close>

lemma ensure_allowance_sufficient:
  "outcome (ensure_allowance wallet r w) = Inr u \<Longrightarrow> signer_address w = wallet \<Longrightarrow>
   BigInt (fromAmount (params r)) = Inr a \<Longrightarrow>
   a \<le> allowances (after (ensure_allowance wallet r w))
         (TOKENS_USDC_BASE, wallet, target (transactionRequest r))"
  by (auto simp: ensure_allowance_def io_run
           split: sum.splits option.splits approve_outcome.splits if_splits)

end
